(* ===== verification/Bump_Prelude.thy ===== *)
theory Bump_Prelude
  imports Main "HOL-Library.Word" "HOL-Library.Code_Target_Numeral"
begin

text \<open>
  Shared vocabulary of the development: the address-width unsigned integer
  \<open>usize\<close> of the allocator as a machine word of any length, Rust's
  overflow-checked arithmetic on it (\<open>checked_add\<close>, \<open>checked_mul\<close>,
  \<open>checked_div\<close>, \<open>checked_rem\<close>), the panic value of a Rust program, and the lemmas that
  move a successful checked operation to arithmetic on \<open>nat\<close>, where the
  component proofs are carried out. The collection \<open>usize_simps\<close> holds the
  facts about \<open>unat\<close> that every component uses; \<open>checked_defs\<close> unfolds the
  checked operations when a closed term is evaluated.

  The word length is a type variable: the allocator is deployed with a 32-bit
  \<open>usize\<close> (wasm32) and its tests run with the 64-bit \<open>usize\<close> of the host.
  The only thing the code needs of the width is that the page size
  \<open>64 * 1024\<close> is representable, the hypothesis \<open>16 < LENGTH('a)\<close> of the
  lemmas below.
\<close>

unbundle bit_operations_syntax

named_theorems usize_simps "facts that read usize values as natural numbers"
named_theorems checked_defs "definitions of the checked arithmetic operations"

type_synonym 'a usize = "'a word"

type_synonym u32 = "32 word"
type_synonym u64 = "64 word"

datatype panic = Unreachable

definition usize_MAX :: "'a::len usize" where
  "usize_MAX = - 1"

definition checked_add :: "'a::len usize \<Rightarrow> 'a usize \<Rightarrow> 'a usize option" where
  [checked_defs]:
  "checked_add a b = (if unat a + unat b < 2 ^ LENGTH('a) then Some (a + b) else None)"

definition checked_mul :: "'a::len usize \<Rightarrow> 'a usize \<Rightarrow> 'a usize option" where
  [checked_defs]:
  "checked_mul a b = (if unat a * unat b < 2 ^ LENGTH('a) then Some (a * b) else None)"

definition checked_div :: "'a::len usize \<Rightarrow> 'a usize \<Rightarrow> 'a usize option" where
  [checked_defs]:
  "checked_div a b = (if b = 0 then None else Some (a div b))"

definition checked_rem :: "'a::len usize \<Rightarrow> 'a usize \<Rightarrow> 'a usize option" where
  [checked_defs]:
  "checked_rem a b = (if b = 0 then None else Some (a mod b))"


section \<open>Reading words as naturals\<close>

lemma unat_less_len [usize_simps]: "unat (a :: 'a::len word) < 2 ^ LENGTH('a)"
  by (rule unsigned_less)

lemma unat_usize_MAX [usize_simps]: "unat (usize_MAX :: 'a::len word) = 2 ^ LENGTH('a) - 1"
  by (simp add: usize_MAX_def unsigned_minus_1_eq_mask mask_eq_exp_minus_1)

lemma unat_le_usize_MAX: "unat (a :: 'a::len word) \<le> unat (usize_MAX :: 'a word)"
proof -
  have "unat a < 2 ^ LENGTH('a)" by (rule unsigned_less)
  then show ?thesis unfolding unat_usize_MAX by arith
qed

lemma len_gt_16_pow: "16 < LENGTH('a::len) \<Longrightarrow> (65536::nat) < 2 ^ LENGTH('a)"
  using power_strict_increasing [of 16 "LENGTH('a)" "2::nat"] by simp

lemma unat_of_nat_small [usize_simps]:
  "n < 2 ^ LENGTH('a::len) \<Longrightarrow> unat (of_nat n :: 'a word) = n"
  by (simp add: unat_of_nat take_bit_nat_eq_self)

lemma word_eq_unatI: "unat a = unat b \<Longrightarrow> a = (b :: 'a::len word)"
  by (simp add: word_unat_eq_iff)


section \<open>Checked addition\<close>

lemma checked_add_Some_iff:
  "checked_add a b = Some c \<longleftrightarrow> unat a + unat b < 2 ^ LENGTH('a) \<and> c = a + (b :: 'a::len word)"
  by (auto simp: checked_add_def)

lemma checked_add_None_iff:
  "checked_add a b = None \<longleftrightarrow> 2 ^ LENGTH('a) \<le> unat a + unat (b :: 'a::len word)"
  by (auto simp: checked_add_def)

lemma unat_add_no_overflow [usize_simps]:
  "unat a + unat b < 2 ^ LENGTH('a) \<Longrightarrow> unat (a + b :: 'a::len word) = unat a + unat b"
  by (simp add: unat_add_lem)

lemma checked_add_unat:
  "checked_add a b = Some c \<Longrightarrow> unat c = unat a + unat b"
  by (auto simp: checked_add_Some_iff unat_add_no_overflow)

lemma checked_add_SomeI:
  "unat a + unat b < 2 ^ LENGTH('a) \<Longrightarrow> checked_add a (b :: 'a::len word) = Some (a + b)"
  by (simp add: checked_add_def)

lemma unat_add_bounded [usize_simps]:
  assumes "unat (a :: 'a::len word) + unat (b :: 'a word) \<le> unat (c :: 'a word)"
  shows "unat (a + b) = unat a + unat b"
proof -
  have "unat c < 2 ^ LENGTH('a)" by (rule unsigned_less)
  with assms have "unat a + unat b < 2 ^ LENGTH('a)" by (rule le_less_trans)
  then show ?thesis by (rule unat_add_no_overflow)
qed

lemma checked_add_bounded:
  assumes "unat (a :: 'a::len word) + unat (b :: 'a word) \<le> unat (c :: 'a word)"
  shows "checked_add a b = Some (a + b)"
proof -
  have "unat c < 2 ^ LENGTH('a)" by (rule unsigned_less)
  with assms have "unat a + unat b < 2 ^ LENGTH('a)" by (rule le_less_trans)
  then show ?thesis by (rule checked_add_SomeI)
qed

lemma checked_add_zero [simp]: "checked_add a 0 = Some a" "checked_add 0 a = Some a"
  by (simp_all add: checked_add_def)

section \<open>Checked multiplication and division\<close>

lemma checked_mul_Some_iff:
  "checked_mul a b = Some c \<longleftrightarrow> unat a * unat b < 2 ^ LENGTH('a) \<and> c = a * (b :: 'a::len word)"
  by (auto simp: checked_mul_def)

lemma unat_mult_no_overflow [usize_simps]:
  "unat a * unat b < 2 ^ LENGTH('a) \<Longrightarrow> unat (a * b :: 'a::len word) = unat a * unat b"
  by (simp add: unat_mult_lem)

lemma checked_mul_unat:
  "checked_mul a b = Some c \<Longrightarrow> unat c = unat a * unat b"
  by (auto simp: checked_mul_Some_iff unat_mult_no_overflow)

lemma checked_mul_SomeI:
  "unat a * unat b < 2 ^ LENGTH('a) \<Longrightarrow> checked_mul a (b :: 'a::len word) = Some (a * b)"
  by (simp add: checked_mul_def)

lemma checked_div_Some_iff:
  "checked_div a b = Some c \<longleftrightarrow> b \<noteq> 0 \<and> c = a div (b :: 'a::len word)"
  by (auto simp: checked_div_def)

lemma checked_div_None_iff: "checked_div a b = None \<longleftrightarrow> b = 0"
  by (simp add: checked_div_def)

section \<open>Options in sequence\<close>

text \<open>
  Rust's \<open>?\<close> and \<open>and_then\<close> on \<open>Option\<close> are \<open>Option.bind\<close>; these two
  rules split a bind in a hypothesis or a goal.
\<close>

lemma bind_eq_Some_iff:
  "Option.bind m f = Some y \<longleftrightarrow> (\<exists>x. m = Some x \<and> f x = Some y)"
  by (cases m) auto

lemma bind_eq_None_iff:
  "Option.bind m f = None \<longleftrightarrow> m = None \<or> (\<exists>x. m = Some x \<and> f x = None)"
  by (cases m) auto

end
