(* ===== verification/Layout.thy ===== *)
theory Layout
  imports Bump_Prelude
begin

text \<open>
  The allocation request of the allocator: Rust's \<open>core::alloc::Layout\<close>, a
  size and an alignment. The type belongs to the Rust core library, not to
  the repository; it is modelled from the library's documented contract at the
  time of the source (the alignment is a power of two, and the size rounded up
  to the alignment does not overflow \<open>usize\<close>) with the library's own
  computation of the padding by bit masking. The newer contract of the library
  (rounded size at most \<open>isize::MAX\<close>) is stricter, so every lemma that
  assumes \<open>layout_ok\<close> covers it.

  The lemmas show that the masking computes the round-up of the arithmetic
  reference \<open>round_up_nat\<close>, that padding keeps a layout valid (so the
  \<open>unwrap\<close> in \<open>pad_to_align\<close> never panics) and is idempotent.
\<close>

record 'w layout =
  l_size :: 'w
  l_align :: 'w

datatype layout_error = LayoutError

definition is_power_of_two :: "'a::len usize \<Rightarrow> bool" where
  "is_power_of_two a \<longleftrightarrow> (\<exists>k \<in> {..<LENGTH('a)}. a = 2 ^ k)"

definition from_size_align :: "'a::len usize \<Rightarrow> 'a usize \<Rightarrow> layout_error + 'a usize layout" where
  "from_size_align sz al =
     (if \<not> is_power_of_two al then Inl LayoutError
      else if sz > usize_MAX - (al - 1) then Inl LayoutError
      else Inr \<lparr>l_size = sz, l_align = al\<rparr>)"

definition layout_new :: "'a::len usize \<Rightarrow> 'a usize \<Rightarrow> 'a usize layout" where
  "layout_new sz al = \<lparr>l_size = sz, l_align = al\<rparr>"

definition layout_ok :: "'a::len usize layout \<Rightarrow> bool" where
  "layout_ok l \<longleftrightarrow> is_power_of_two (l_align l) \<and> l_size l \<le> usize_MAX - (l_align l - 1)"

definition padding_needed_for :: "'a::len usize layout \<Rightarrow> 'a usize \<Rightarrow> 'a usize" where
  "padding_needed_for l al =
     (let len = l_size l;
          len_rounded_up = (len + al - 1) AND NOT (al - 1)
      in len_rounded_up - len)"

definition pad_to_align :: "'a::len usize layout \<Rightarrow> 'a usize layout" where
  "pad_to_align l =
     (let pad = padding_needed_for l (l_align l);
          new_size = l_size l + pad
      in \<lparr>l_size = new_size, l_align = l_align l\<rparr>)"

definition aligned_size :: "'a::len usize layout \<Rightarrow> 'a usize" where
  "aligned_size l = l_size (pad_to_align l)"

definition round_up_nat :: "nat \<Rightarrow> nat \<Rightarrow> nat" where
  "round_up_nat n a = (n + a - 1) div a * a"

lemmas layout_defs = padding_needed_for_def pad_to_align_def aligned_size_def Let_def


section \<open>Powers of two\<close>

lemma unat_pow2: 
  assumes "k < LENGTH('a::len)" shows "unat (2 ^ k :: 'a word) = 2 ^ k"
proof -
  from assms have "(2::nat) ^ k < 2 ^ LENGTH('a)" by simp
  then have "unat (of_nat (2 ^ k) :: 'a word) = 2 ^ k" by (rule unat_of_nat_small)
  then show ?thesis by simp
qed

lemma is_power_of_twoI: "k < LENGTH('a::len) \<Longrightarrow> is_power_of_two (2 ^ k :: 'a word)"
  by (auto simp: is_power_of_two_def)

lemma is_power_of_twoE:
  assumes "is_power_of_two (a :: 'a::len word)"
  obtains k where "k < LENGTH('a)" "a = 2 ^ k" "unat a = 2 ^ k"
  using assms by (auto simp: is_power_of_two_def unat_pow2)

lemma is_power_of_two_nonzero: "is_power_of_two a \<Longrightarrow> a \<noteq> 0"
  by (erule is_power_of_twoE) (metis power_not_zero unat_eq_zero zero_neq_numeral)

section \<open>Rounding by masking\<close>

lemma and_not_mask_eq: "(x :: 'a::len word) AND NOT (mask k) = push_bit k (drop_bit k x)"
  by (rule bit_word_eqI) (auto simp: bit_simps)

lemma unat_and_not_mask:
  "unat ((x :: 'a::len word) AND NOT (mask k)) = (unat x div 2 ^ k) * 2 ^ k"
proof -
  have "(unat x div 2 ^ k) * 2 ^ k \<le> unat x" by simp
  also have "\<dots> < 2 ^ LENGTH('a)" by (rule unsigned_less)
  finally have lt: "(unat x div 2 ^ k) * 2 ^ k < 2 ^ LENGTH('a)" .
  have "unat (drop_bit k x) = drop_bit k (unat x)" by (rule unat_drop_bit_eq)
  also have "\<dots> = unat x div 2 ^ k" by (rule drop_bit_eq_div)
  finally have d: "unat (drop_bit k x) = unat x div 2 ^ k" .
  have "unat (push_bit k (drop_bit k x)) = take_bit LENGTH('a) (push_bit k (unat (drop_bit k x)))"
    by (simp add: unsigned_push_bit_eq)
  also have "\<dots> = take_bit LENGTH('a) ((unat x div 2 ^ k) * 2 ^ k)"
    by (simp only: d push_bit_eq_mult)
  also have "\<dots> = (unat x div 2 ^ k) * 2 ^ k"
    using lt by (simp add: take_bit_nat_eq_self)
  finally show ?thesis by (simp add: and_not_mask_eq)
qed

lemma layout_ok_iff:
  "layout_ok l \<longleftrightarrow> is_power_of_two (l_align l) \<and> unat (l_size l) + unat (l_align l) \<le> 2 ^ LENGTH('a)"
  for l :: "'a::len usize layout"
proof (cases "is_power_of_two (l_align l)")
  case False
  then show ?thesis by (simp add: layout_ok_def)
next
  case True
  then obtain k where k: "k < LENGTH('a)" "l_align l = 2 ^ k" "unat (l_align l) = 2 ^ k"
    by (rule is_power_of_twoE)
  have nz: "l_align l \<noteq> 0" using True by (rule is_power_of_two_nonzero)
  have "unat (l_align l - 1) = unat (l_align l) - 1" using nz by (rule unat_minus_one)
  moreover have "unat (l_align l) \<le> 2 ^ LENGTH('a) - 1"
    using unat_le_usize_MAX [of "l_align l"] by (simp add: unat_usize_MAX)
  moreover have "0 < unat (l_align l)" using nz by (simp add: unat_gt_0)
  ultimately have "unat (usize_MAX - (l_align l - 1)) = 2 ^ LENGTH('a) - unat (l_align l)"
    by (simp add: unat_sub word_le_nat_alt unat_usize_MAX)
  then show ?thesis
    using True \<open>0 < unat (l_align l)\<close> \<open>unat (l_align l) \<le> 2 ^ LENGTH('a) - 1\<close>
    by (auto simp: layout_ok_def word_le_nat_alt)
qed


section \<open>The arithmetic reference\<close>

lemma round_up_nat_ge: "0 < a \<Longrightarrow> n \<le> round_up_nat n a"
proof -
  assume a: "0 < a"
  have "n + a - 1 = (n + a - 1) div a * a + (n + a - 1) mod a" by simp
  moreover have "(n + a - 1) mod a < a" using a by simp
  ultimately show ?thesis unfolding round_up_nat_def by linarith
qed

lemma round_up_nat_less: "0 < a \<Longrightarrow> round_up_nat n a < n + a"
proof -
  assume a: "0 < a"
  have "(n + a - 1) div a * a \<le> n + a - 1" by simp
  with a show ?thesis unfolding round_up_nat_def by linarith
qed

lemma round_up_nat_dvd [simp]: "a dvd round_up_nat n a"
  by (simp add: round_up_nat_def)

lemma round_up_nat_multiple:
  assumes "0 < a" "a dvd n" shows "round_up_nat n a = n"
proof -
  from assms(2) obtain q where q: "n = q * a" by (auto simp: dvd_def mult.commute)
  from assms(1) obtain b where b: "a = Suc b" by (cases a) auto
  have "n + a - 1 = b + q * Suc b" by (simp add: q b)
  then have "(n + a - 1) div a = (b + q * Suc b) div Suc b" by (simp only: b)
  also have "\<dots> = q + b div Suc b" by (rule div_mult_self1) simp
  finally show ?thesis by (simp add: round_up_nat_def q)
qed

lemma round_up_nat_idem: "0 < a \<Longrightarrow> round_up_nat (round_up_nat n a) a = round_up_nat n a"
  by (simp add: round_up_nat_multiple)

lemma round_up_nat_le_multiple:
  assumes "0 < a" "a dvd m" "n \<le> m" shows "round_up_nat n a \<le> m"
proof -
  from assms(2) obtain k where k: "m = k * a" by (auto simp: dvd_def mult.commute)
  have "(n + a - 1) div a * a < n + a" using round_up_nat_less [OF assms(1)]
    by (simp add: round_up_nat_def)
  also have "\<dots> \<le> (k + 1) * a" using assms(3) by (simp add: k)
  finally have "(n + a - 1) div a < k + 1" by (rule mult_less_cancel2 [THEN iffD1, THEN conjunct2])
  then show ?thesis by (simp add: round_up_nat_def k)
qed

section \<open>Padding\<close>

lemma aligned_size_eq:
  "aligned_size l = (l_size l + l_align l - 1) AND NOT (l_align l - 1)"
  by (simp add: layout_defs)

lemma unat_aligned_size:
  assumes "layout_ok l"
  shows "unat (aligned_size l) = round_up_nat (unat (l_size l)) (unat (l_align l))"
proof -
  from assms have p2: "is_power_of_two (l_align l)"
    and le: "unat (l_size l) + unat (l_align l) \<le> 2 ^ LENGTH('a)"
    by (simp_all add: layout_ok_iff)
  from p2 obtain k where k: "l_align l = 2 ^ k" "unat (l_align l) = 2 ^ k"
    by (rule is_power_of_twoE)
  have m: "l_align l - 1 = mask k" by (simp add: k mask_eq_exp_minus_1)
  have m1: "unat (l_align l - 1) = 2 ^ k - 1"
    using p2 k(2) by (simp add: unat_minus_one is_power_of_two_nonzero)
  have "unat (l_size l) + unat (l_align l - 1) < 2 ^ LENGTH('a)"
    using le unfolding m1 k(2) by (simp add: less_le_trans [of _ "unat (l_size l) + 2 ^ k"])
  then have "unat (l_size l + (l_align l - 1)) = unat (l_size l) + (2 ^ k - 1)"
    unfolding m1 [symmetric] by (rule unat_add_no_overflow)
  moreover have "l_size l + l_align l - 1 = l_size l + (l_align l - 1)" by simp
  ultimately have "unat (l_size l + l_align l - 1) = unat (l_size l) + 2 ^ k - 1"
    by (simp only: Nat.add_diff_assoc one_le_numeral one_le_power)
  then show ?thesis
    unfolding aligned_size_eq m unat_and_not_mask round_up_nat_def k(2) by simp
qed

lemma aligned_size_multiple:
  assumes "layout_ok l" "unat (l_align l) dvd unat (l_size l)"
  shows "aligned_size l = l_size l"
proof (rule word_eq_unatI)
  from assms(1) have "is_power_of_two (l_align l)" by (simp add: layout_ok_def)
  then have "0 < unat (l_align l)" by (simp add: is_power_of_two_nonzero unat_gt_0)
  then show "unat (aligned_size l) = unat (l_size l)"
    using assms by (simp add: unat_aligned_size round_up_nat_multiple)
qed

lemma unat_align_pos: "layout_ok l \<Longrightarrow> 0 < unat (l_align l)"
  by (auto simp: layout_ok_def unat_gt_0 dest: is_power_of_two_nonzero)

lemma aligned_size_ge: "layout_ok l \<Longrightarrow> unat (l_size l) \<le> unat (aligned_size l)"
  by (simp add: unat_aligned_size round_up_nat_ge unat_align_pos)

lemma aligned_size_less:
  "layout_ok l \<Longrightarrow> unat (aligned_size l) < unat (l_size l) + unat (l_align l)"
  by (simp add: unat_aligned_size round_up_nat_less unat_align_pos)

lemma aligned_size_dvd: "layout_ok l \<Longrightarrow> unat (l_align l) dvd unat (aligned_size l)"
  by (simp add: unat_aligned_size)

lemma pad_to_align_sel [simp]:
  "l_size (pad_to_align l) = aligned_size l" "l_align (pad_to_align l) = l_align l"
  by (simp_all add: layout_defs)

lemma pad_to_align_eq: "pad_to_align l = \<lparr>l_size = aligned_size l, l_align = l_align l\<rparr>"
  by (simp add: layout_defs)

lemma pow2_multiple_bound:
  assumes "(2::nat) ^ k dvd r" "r < 2 ^ n" "k \<le> n"
  shows "r + 2 ^ k \<le> 2 ^ n"
proof -
  from assms(1) obtain q where q: "r = 2 ^ k * q" by (rule dvdE)
  from assms(3) have n: "(2::nat) ^ n = 2 ^ k * 2 ^ (n - k)"
    by (simp add: power_add [symmetric])
  from assms(2) have "q < 2 ^ (n - k)" unfolding q n by simp
  then have "Suc q \<le> 2 ^ (n - k)" by simp
  then have "2 ^ k * Suc q \<le> (2::nat) ^ k * 2 ^ (n - k)" by (rule mult_le_mono2)
  then show ?thesis unfolding q n by simp
qed

lemma pad_to_align_ok:
  assumes "layout_ok l" shows "layout_ok (pad_to_align l)"
proof -
  from assms have p2: "is_power_of_two (l_align l)" by (simp add: layout_ok_def)
  then obtain k where k: "k < LENGTH('a)" "unat (l_align l) = 2 ^ k"
    by (rule is_power_of_twoE)
  have "2 ^ k dvd unat (aligned_size l)"
    using aligned_size_dvd [OF assms] by (simp add: k)
  moreover have "unat (aligned_size l) < 2 ^ LENGTH('a)" by (rule unsigned_less)
  ultimately have "unat (aligned_size l) + 2 ^ k \<le> 2 ^ LENGTH('a)"
    using k(1) by (intro pow2_multiple_bound) simp_all
  with p2 k show ?thesis by (simp add: layout_ok_iff)
qed

lemma pad_to_align_idem:
  assumes "layout_ok l" shows "pad_to_align (pad_to_align l) = pad_to_align l"
proof -
  have "unat (aligned_size (pad_to_align l)) = unat (aligned_size l)"
    using assms
    by (simp add: unat_aligned_size [OF pad_to_align_ok] unat_aligned_size
        round_up_nat_idem unat_align_pos)
  then have "aligned_size (pad_to_align l) = aligned_size l" by (rule word_eq_unatI)
  then show ?thesis by (simp add: pad_to_align_eq [of "pad_to_align l"])
qed

lemma from_size_align_ok:
  "from_size_align sz al = Inr l \<longleftrightarrow> layout_ok l \<and> l = \<lparr>l_size = sz, l_align = al\<rparr>"
  by (auto simp: from_size_align_def layout_ok_def not_less)

lemma pad_to_align_unwrap:
  "layout_ok l \<Longrightarrow> from_size_align (aligned_size l) (l_align l) = Inr (pad_to_align l)"
  using pad_to_align_ok [of l] by (simp add: from_size_align_ok)

end
