(* ===== verification/Inner_Alloc.thy ===== *)
theory Inner_Alloc
  imports Bump_Prelude
begin

text \<open>
  The data model of the allocator: the page size and the state \<open>InnerAlloc\<close>
  with its two cursors, created by \<open>new\<close> with both at zero. The invariant
  \<open>inner_inv\<close> is the one the specification gives for the state: the next
  free address never lies beyond the limit of the granted memory.
\<close>

definition PAGE_SIZE :: "'a::len usize" where
  "PAGE_SIZE = 64 * 1024"

record 'w inner_alloc =
  "next" :: 'w
  upper_limit :: 'w

definition new :: "'a::len usize inner_alloc" where
  "new = \<lparr>next = 0, upper_limit = 0\<rparr>"

definition inner_inv :: "'a::len usize inner_alloc \<Rightarrow> bool" where
  "inner_inv s \<longleftrightarrow> next s \<le> upper_limit s"

definition headroom :: "'a::len usize inner_alloc \<Rightarrow> nat" where
  "headroom s = unat (upper_limit s) - unat (next s)"

lemma unat_PAGE_SIZE [usize_simps]:
  "16 < LENGTH('a::len) \<Longrightarrow> unat (PAGE_SIZE :: 'a word) = 65536"
  unfolding PAGE_SIZE_def by (simp add: take_bit_nat_eq_self len_gt_16_pow)

lemma PAGE_SIZE_nonzero: "16 < LENGTH('a::len) \<Longrightarrow> (PAGE_SIZE :: 'a word) \<noteq> 0"
  using unat_PAGE_SIZE [where 'a = 'a] by (auto simp: unat_eq_zero [symmetric] simp del: unat_eq_zero)

lemma new_sel [simp]: "next new = 0" "upper_limit new = 0"
  by (simp_all add: new_def)

lemma inner_inv_new [simp]: "inner_inv new"
  by (simp add: inner_inv_def)

lemma inner_inv_unat: "inner_inv s \<longleftrightarrow> unat (next s) \<le> unat (upper_limit s)"
  by (simp add: inner_inv_def word_le_nat_alt)

end
