(* ===== verification/Page_Source.thy ===== *)
theory Page_Source
  imports Inner_Alloc
begin

text \<open>
  The page source: \<open>InnerAlloc::request_pages\<close>, which the source file defines
  three times under \<open>cfg_if\<close>, and the host primitive behind the wasm32
  variant. A page source takes the allocator state (the method's \<open>self\<close>),
  the state of the host and a number of pages, and either panics or returns
  the base address of the granted pages (\<open>None\<close> when the host refuses)
  together with the new host state. The allocator is stated over any function
  of this type; the three variants are its implementations.

  The linear memory of the host is a page count with a limit; \<open>memory_grow\<close>
  follows the WebAssembly instruction: it returns the previous size in pages
  and grows the memory, or returns the all-ones sentinel and changes nothing.
\<close>

type_synonym ('a, 'h) page_source =
  "'a usize inner_alloc \<Rightarrow> 'h \<Rightarrow> 'a usize \<Rightarrow> panic + ('a usize option \<times> 'h)"

record wasm_memory =
  mem_pages :: nat
  mem_max :: nat

definition memory_grow :: "wasm_memory \<Rightarrow> 'a::len usize \<Rightarrow> 'a usize \<times> wasm_memory" where
  "memory_grow m delta =
     (if mem_pages m + unat delta \<le> mem_max m
      then (of_nat (mem_pages m), m\<lparr>mem_pages := mem_pages m + unat delta\<rparr>)
      else (usize_MAX, m))"

definition request_pages_test :: "('a::len, 'h) page_source" where
  "request_pages_test self h pages = Inr (Some (upper_limit self), h)"

definition request_pages_std :: "('a::len, 'h) page_source" where
  "request_pages_std self h pages = Inl Unreachable"

definition request_pages_wasm32 :: "('a::len, wasm_memory) page_source" where
  "request_pages_wasm32 self m pages =
     (let (prev_page, m') = memory_grow m pages
      in if prev_page = usize_MAX then Inr (None, m')
         else Inr (checked_mul prev_page PAGE_SIZE, m'))"

datatype target = Test | Std | Wasm32

record cfg =
  cfg_test :: bool
  feature_std :: bool
  target_arch_wasm32 :: bool

datatype compile_error = Unsupported_Target

definition cfg_select :: "cfg \<Rightarrow> compile_error + target" where
  "cfg_select c =
     (if cfg_test c then Inr Test
      else if feature_std c then Inr Std
      else if target_arch_wasm32 c then Inr Wasm32
      else Inl Unsupported_Target)"

fun request_pages :: "target \<Rightarrow> ('a::len, wasm_memory) page_source" where
  "request_pages Test = request_pages_test"
| "request_pages Std = request_pages_std"
| "request_pages Wasm32 = request_pages_wasm32"

definition wasm_wf :: "wasm_memory \<Rightarrow> bool" where
  "wasm_wf m \<longleftrightarrow> mem_pages m \<le> mem_max m \<and> mem_max m \<le> 65536"

definition wasm_coupled :: "'a::len usize \<Rightarrow> wasm_memory \<Rightarrow> bool" where
  "wasm_coupled lim m \<longleftrightarrow> wasm_wf m \<and> unat lim \<le> mem_pages m * 65536"

definition ps_fresh :: "('a usize \<Rightarrow> 'h \<Rightarrow> bool) \<Rightarrow> ('a::len, 'h) page_source \<Rightarrow> bool" where
  "ps_fresh J rp \<longleftrightarrow>
     (\<forall>s h n r h'. J (upper_limit s) h \<longrightarrow> rp s h n = Inr (r, h') \<longrightarrow>
        J (upper_limit s) h' \<and>
        (\<forall>p. r = Some p \<longrightarrow>
           unat (upper_limit s) \<le> unat p \<and>
           (\<forall>lim. unat lim = unat p + unat n * 65536 \<longrightarrow> J lim h')))"


section \<open>The contract of a page source\<close>

text \<open>
  \<open>ps_fresh J rp\<close> is what the allocator needs of a page source to hand out
  disjoint regions: under a coupling \<open>J\<close> between the allocator's limit and
  the host, the granted run of pages starts at or above the limit, and the
  coupling holds again for the limit the allocator computes from the grant
  (and for the old limit, when the allocator fails after the call).
\<close>

lemma ps_freshI:
  assumes "\<And>s h n r h'. J (upper_limit s) h \<Longrightarrow> rp s h n = Inr (r, h') \<Longrightarrow> J (upper_limit s) h'"
    and "\<And>s h n p h'. J (upper_limit s) h \<Longrightarrow> rp s h n = Inr (Some p, h') \<Longrightarrow>
           unat (upper_limit s) \<le> unat p"
    and "\<And>s h n p h' lim. J (upper_limit s) h \<Longrightarrow> rp s h n = Inr (Some p, h') \<Longrightarrow>
           unat lim = unat p + unat n * 65536 \<Longrightarrow> J lim h'"
  shows "ps_fresh J rp"
  unfolding ps_fresh_def using assms by blast

lemma ps_fresh_host:
  "ps_fresh J rp \<Longrightarrow> J (upper_limit s) h \<Longrightarrow> rp s h n = Inr (r, h') \<Longrightarrow> J (upper_limit s) h'"
  unfolding ps_fresh_def by blast

lemma ps_fresh_above:
  "ps_fresh J rp \<Longrightarrow> J (upper_limit s) h \<Longrightarrow> rp s h n = Inr (Some p, h') \<Longrightarrow>
     unat (upper_limit s) \<le> unat p"
  unfolding ps_fresh_def by blast

lemma ps_fresh_grown:
  "ps_fresh J rp \<Longrightarrow> J (upper_limit s) h \<Longrightarrow> rp s h n = Inr (Some p, h') \<Longrightarrow>
     unat lim = unat p + unat n * 65536 \<Longrightarrow> J lim h'"
  unfolding ps_fresh_def by blast

lemma ps_fresh_test: "ps_fresh (\<lambda>lim h. True) request_pages_test"
  by (rule ps_freshI) (simp_all add: request_pages_test_def)

lemma ps_fresh_std: "ps_fresh J request_pages_std"
  by (rule ps_freshI) (simp_all add: request_pages_std_def)


section \<open>The linear memory and the wasm32 variant\<close>

lemma unat_pages:
  assumes "16 < LENGTH('a::len)" "wasm_wf m"
  shows "unat (of_nat (mem_pages m) :: 'a word) = mem_pages m"
    and "(of_nat (mem_pages m) :: 'a word) \<noteq> usize_MAX"
proof -
  from assms(2) have le: "mem_pages m \<le> 65536" by (simp add: wasm_wf_def)
  with len_gt_16_pow [OF assms(1)] have "mem_pages m < 2 ^ LENGTH('a)" by simp
  then show u: "unat (of_nat (mem_pages m) :: 'a word) = mem_pages m"
    by (rule unat_of_nat_small)
  have "(2::nat) ^ 17 \<le> 2 ^ LENGTH('a)"
    using assms(1) by (intro power_increasing) simp_all
  then have "mem_pages m < 2 ^ LENGTH('a) - 1" using le by simp
  then have "unat (of_nat (mem_pages m) :: 'a word) \<noteq> unat (usize_MAX :: 'a word)"
    by (simp add: u unat_usize_MAX)
  then show "(of_nat (mem_pages m) :: 'a word) \<noteq> usize_MAX" by auto
qed

lemma request_pages_wasm32_eq:
  assumes "16 < LENGTH('a::len)" "wasm_wf m"
  shows "request_pages_wasm32 s m (n :: 'a word) =
    (if mem_pages m + unat n \<le> mem_max m
     then Inr (if mem_pages m * 65536 < 2 ^ LENGTH('a)
               then Some (of_nat (mem_pages m) * PAGE_SIZE) else None,
               m\<lparr>mem_pages := mem_pages m + unat n\<rparr>)
     else Inr (None, m))"
  using unat_pages [OF assms]
  by (simp add: request_pages_wasm32_def memory_grow_def checked_mul_def unat_PAGE_SIZE assms(1))

lemma unat_page_base:
  assumes "16 < LENGTH('a::len)" "wasm_wf m" "mem_pages m * 65536 < 2 ^ LENGTH('a)"
  shows "unat (of_nat (mem_pages m) * PAGE_SIZE :: 'a word) = mem_pages m * 65536"
  using assms unat_pages(1) [OF assms(1,2)]
  by (simp add: unat_mult_no_overflow unat_PAGE_SIZE)

lemma ps_fresh_wasm32:
  assumes "16 < LENGTH('a::len)"
  shows "ps_fresh (wasm_coupled :: 'a word \<Rightarrow> _) request_pages_wasm32"
proof (rule ps_freshI)
  fix s :: "'a word inner_alloc" and m m' :: wasm_memory and n p lim :: "'a word" and r
  assume J: "wasm_coupled (upper_limit s) m"
  then have wf: "wasm_wf m" by (simp add: wasm_coupled_def)
  note eq = request_pages_wasm32_eq [OF assms wf, of s n]
  { assume "request_pages_wasm32 s m n = Inr (r, m')"
    with J show "wasm_coupled (upper_limit s) m'"
      by (auto simp: eq wasm_coupled_def wasm_wf_def split: if_splits) }
  { assume "request_pages_wasm32 s m n = Inr (Some p, m')"
    with J show "unat (upper_limit s) \<le> unat p"
      by (auto simp: eq wasm_coupled_def unat_page_base [OF assms wf] split: if_splits) }
  { assume "request_pages_wasm32 s m n = Inr (Some p, m')"
      and "unat lim = unat p + unat n * 65536"
    with J show "wasm_coupled lim m'"
      by (auto simp: eq wasm_coupled_def wasm_wf_def unat_page_base [OF assms wf]
          add_mult_distrib split: if_splits) }
qed

end
