(* ===== verification/Bump_Alloc.thy ===== *)
theory Bump_Alloc
  imports Layout Page_Source
begin

text \<open>
  The allocation algorithm: \<open>required_pages\<close> and \<open>InnerAlloc::alloc\<close>.
  \<open>alloc\<close> takes the page source as a parameter and threads the state of
  the host through it; its result is a panic, or the optional start address
  with the new allocator state and the new host state. Each \<open>?\<close> of the
  source is a branch that returns \<open>None\<close> with the state as it is at that
  point, so the model keeps the order of the assignments and the checks.

  The lemmas come in three layers. One lemma per path through the code
  (\<open>alloc_overflow\<close>, \<open>alloc_fits\<close>, \<open>alloc_pages_overflow\<close>,
  \<open>alloc_panic\<close>, \<open>alloc_exhausted\<close>, \<open>alloc_limit_overflow\<close>,
  \<open>alloc_grow\<close>) and the case rule \<open>alloc_Inr_cases\<close>, which reduces a
  returned call to the three outcomes fits, grow and fail. The theorems on
  one call, for every page source. And \<open>alloc_nat_eq\<close>, the whole function
  with the checked arithmetic replaced by comparisons of natural numbers,
  from which the behaviour with the std and test page sources follows.
  \<open>ceil_div\<close> is the arithmetic reference for \<open>required_pages\<close>.
\<close>

definition required_pages :: "'a::len usize \<Rightarrow> 'a usize option" where
  "required_pages sz =
     Option.bind (checked_add sz (PAGE_SIZE - 1)) (\<lambda>num. checked_div num PAGE_SIZE)"

definition ceil_div :: "nat \<Rightarrow> nat \<Rightarrow> nat" where
  "ceil_div n d = n div d + (if n mod d = 0 then 0 else 1)"

definition alloc ::
  "('a::len, 'h) page_source \<Rightarrow> 'a usize layout \<Rightarrow> 'a usize inner_alloc \<Rightarrow> 'h \<Rightarrow>
     panic + ('a usize option \<times> 'a usize inner_alloc \<times> 'h)" where
  "alloc rp layout self h =
     (let alloc_start = next self;
          aligned_size = l_size (pad_to_align layout)
      in case checked_add alloc_start aligned_size of
           None \<Rightarrow> Inr (None, self, h)
         | Some alloc_end \<Rightarrow>
             if alloc_end > upper_limit self then
               (case required_pages aligned_size of
                  None \<Rightarrow> Inr (None, self, h)
                | Some pages \<Rightarrow>
                    (case rp self h pages of
                       Inl p \<Rightarrow> Inl p
                     | Inr (None, h') \<Rightarrow> Inr (None, self, h')
                     | Inr (Some page_start, h') \<Rightarrow>
                         (case Option.bind (checked_mul pages PAGE_SIZE)
                                 (\<lambda>pages. checked_add page_start pages) of
                            None \<Rightarrow> Inr (None, self, h')
                          | Some limit \<Rightarrow>
                              let self = self\<lparr>upper_limit := limit\<rparr>
                              in (case checked_add page_start aligned_size of
                                    None \<Rightarrow> Inr (None, self, h')
                                  | Some nxt \<Rightarrow>
                                      Inr (Some page_start, self\<lparr>next := nxt\<rparr>, h')))))
             else Inr (Some alloc_start, self\<lparr>next := alloc_end\<rparr>, h))"


lemmas alloc_eval = alloc_def required_pages_def layout_defs layout_new_def checked_defs
  PAGE_SIZE_def request_pages_test_def request_pages_std_def request_pages_wasm32_def
  memory_grow_def usize_MAX_def new_def inner_inv_def


section \<open>The number of pages\<close>

lemma unat_PAGE_SIZE_minus_1 [usize_simps]:
  "16 < LENGTH('a::len) \<Longrightarrow> unat (PAGE_SIZE - 1 :: 'a word) = 65535"
  by (simp add: unat_minus_one PAGE_SIZE_nonzero unat_PAGE_SIZE)

lemma required_pages_Some_iff:
  assumes "16 < LENGTH('a::len)"
  shows "required_pages sz = Some p \<longleftrightarrow>
           unat sz + 65535 < 2 ^ LENGTH('a) \<and> p = (sz + (PAGE_SIZE - 1)) div (PAGE_SIZE :: 'a word)"
  using assms
  by (auto simp: required_pages_def bind_eq_Some_iff checked_add_Some_iff checked_div_Some_iff
      unat_PAGE_SIZE_minus_1 PAGE_SIZE_nonzero)

lemma required_pages_None_iff:
  assumes "16 < LENGTH('a::len)"
  shows "required_pages (sz :: 'a word) = None \<longleftrightarrow> 2 ^ LENGTH('a) \<le> unat sz + 65535"
  using assms
  by (auto simp: required_pages_def bind_eq_None_iff checked_add_None_iff checked_add_Some_iff
      checked_div_None_iff unat_PAGE_SIZE_minus_1 PAGE_SIZE_nonzero)

lemma required_pages_unat:
  assumes "16 < LENGTH('a::len)" "required_pages (sz :: 'a word) = Some p"
  shows "unat p = (unat sz + 65535) div 65536"
proof -
  from assms have lt: "unat sz + 65535 < 2 ^ LENGTH('a)"
    and p: "p = (sz + (PAGE_SIZE - 1)) div PAGE_SIZE"
    by (simp_all add: required_pages_Some_iff)
  from lt have "unat (sz + (PAGE_SIZE - 1)) = unat sz + 65535"
    using assms(1) by (simp add: unat_add_no_overflow unat_PAGE_SIZE_minus_1)
  then show ?thesis using assms(1) by (simp add: p unat_div unat_PAGE_SIZE)
qed

lemma required_pages_covers:
  assumes "16 < LENGTH('a::len)" "required_pages (sz :: 'a word) = Some p"
  shows "unat sz \<le> unat p * 65536" "unat p * 65536 < unat sz + 65536"
  using required_pages_unat [OF assms] by arith+


lemma required_pages_mul:
  assumes "16 < LENGTH('a::len)" "required_pages (sz :: 'a word) = Some p"
  shows "checked_mul p PAGE_SIZE = Some (p * PAGE_SIZE)"
    and "checked_mul PAGE_SIZE p = Some (p * PAGE_SIZE)"
    and "unat (p * PAGE_SIZE) = unat p * 65536"
proof -
  have "unat sz + 65535 < 2 ^ LENGTH('a)"
    using assms by (simp add: required_pages_Some_iff)
  with required_pages_covers(2) [OF assms]
  have "unat p * unat (PAGE_SIZE :: 'a word) < 2 ^ LENGTH('a)"
    using assms(1) by (simp add: unat_PAGE_SIZE)
  then show "checked_mul p PAGE_SIZE = Some (p * PAGE_SIZE)"
    and "checked_mul PAGE_SIZE p = Some (p * PAGE_SIZE)"
    and "unat (p * PAGE_SIZE) = unat p * 65536"
    using assms(1)
    by (simp_all add: checked_mul_def unat_mult_no_overflow unat_PAGE_SIZE mult.commute)
qed


section \<open>The branches of \<open>alloc\<close>\<close>

lemma alloc_overflow:
  "checked_add (next s) (aligned_size l) = None \<Longrightarrow> alloc rp l s h = Inr (None, s, h)"
  by (simp add: alloc_def)

lemma alloc_fits:
  assumes "checked_add (next s) (aligned_size l) = Some e" "e \<le> upper_limit s"
  shows "alloc rp l s h = Inr (Some (next s), s\<lparr>next := e\<rparr>, h)"
proof -
  from assms(2) have "\<not> upper_limit s < e" by simp
  with assms(1) show ?thesis by (simp add: alloc_def)
qed

lemma alloc_pages_overflow:
  "checked_add (next s) (aligned_size l) = Some e \<Longrightarrow> upper_limit s < e \<Longrightarrow>
     required_pages (aligned_size l) = None \<Longrightarrow> alloc rp l s h = Inr (None, s, h)"
  by (simp add: alloc_def)

lemma alloc_panic:
  "checked_add (next s) (aligned_size l) = Some e \<Longrightarrow> upper_limit s < e \<Longrightarrow>
     required_pages (aligned_size l) = Some p \<Longrightarrow> rp s h p = Inl x \<Longrightarrow>
     alloc rp l s h = Inl x"
  by (simp add: alloc_def)

lemma alloc_exhausted:
  "checked_add (next s) (aligned_size l) = Some e \<Longrightarrow> upper_limit s < e \<Longrightarrow>
     required_pages (aligned_size l) = Some p \<Longrightarrow> rp s h p = Inr (None, h') \<Longrightarrow>
     alloc rp l s h = Inr (None, s, h')"
  by (simp add: alloc_def)

lemma alloc_limit_overflow:
  "checked_add (next s) (aligned_size l) = Some e \<Longrightarrow> upper_limit s < e \<Longrightarrow>
     required_pages (aligned_size l) = Some p \<Longrightarrow> rp s h p = Inr (Some ps, h') \<Longrightarrow>
     Option.bind (checked_mul p PAGE_SIZE) (checked_add ps) = None \<Longrightarrow>
     alloc rp l s h = Inr (None, s, h')"
  by (simp add: alloc_def)

lemma grown_limit_unat:
  assumes "16 < LENGTH('a::len)"
    and "Option.bind (checked_mul p PAGE_SIZE) (checked_add ps) = Some (lim :: 'a word)"
  shows "unat lim = unat ps + unat p * 65536" "lim = ps + p * PAGE_SIZE"
proof -
  from assms(2) obtain pg where pg: "checked_mul p PAGE_SIZE = Some pg"
    and lim: "checked_add ps pg = Some lim"
    by (auto simp: bind_eq_Some_iff)
  have "unat pg = unat p * 65536" "pg = p * PAGE_SIZE"
    using checked_mul_unat [OF pg] pg assms(1)
    by (simp_all add: unat_PAGE_SIZE checked_mul_Some_iff)
  then show "unat lim = unat ps + unat p * 65536" "lim = ps + p * PAGE_SIZE"
    using checked_add_unat [OF lim] lim by (simp_all add: checked_add_Some_iff)
qed

lemma next_after_grow:
  assumes "16 < LENGTH('a::len)"
    and "required_pages sz = Some p"
    and "Option.bind (checked_mul p PAGE_SIZE) (checked_add ps) = Some (lim :: 'a word)"
  shows "checked_add ps sz = Some (ps + sz)"
proof -
  have "unat ps + unat sz \<le> unat lim"
    using required_pages_covers(1) [OF assms(1,2)] grown_limit_unat(1) [OF assms(1,3)] by simp
  then show ?thesis by (rule checked_add_bounded)
qed

lemma alloc_grow:
  assumes "16 < LENGTH('a::len)"
    and "checked_add (next s) (aligned_size l) = Some e" "upper_limit s < e"
    and "required_pages (aligned_size l) = Some p" "rp s h p = Inr (Some ps, h')"
    and "Option.bind (checked_mul p PAGE_SIZE) (checked_add ps) = Some (lim :: 'a word)"
  shows "alloc rp l s h = Inr (Some ps, \<lparr>next = ps + aligned_size l, upper_limit = lim\<rparr>, h')"
  using assms(2-6) next_after_grow [OF assms(1,4,6)]
  by (simp add: alloc_def)


lemma alloc_short_eq:
  assumes "16 < LENGTH('a::len)"
    and "checked_add (next s) (aligned_size l) = Some e" "upper_limit s < e"
  shows "alloc rp l s h =
    (case required_pages (aligned_size l) of
       None \<Rightarrow> Inr (None, s, h)
     | Some p \<Rightarrow>
        (case rp s h p of
           Inl x \<Rightarrow> Inl x
         | Inr (None, h') \<Rightarrow> Inr (None, s, h')
         | Inr (Some ps, h') \<Rightarrow>
            (case Option.bind (checked_mul p PAGE_SIZE) (checked_add ps) of
               None \<Rightarrow> Inr (None, s, h')
             | Some (lim :: 'a word) \<Rightarrow>
                 Inr (Some ps, \<lparr>next = ps + aligned_size l, upper_limit = lim\<rparr>, h'))))"
  using assms
  by (simp add: alloc_pages_overflow alloc_panic alloc_exhausted alloc_limit_overflow alloc_grow
      split: option.split sum.split prod.split)

lemma alloc_Inr_cases [consumes 2, case_names fits grow fail]:
  assumes "16 < LENGTH('a::len)" and "alloc rp l s h = Inr (r, s', h')"
  obtains
    (fits) e where "checked_add (next s) (aligned_size l) = Some e" "e \<le> upper_limit s"
      "r = Some (next s)" "s' = s\<lparr>next := e\<rparr>" "h' = h"
  | (grow) e p ps lim where "checked_add (next s) (aligned_size l) = Some e"
      "upper_limit s < e" "required_pages (aligned_size l) = Some p"
      "rp s h p = Inr (Some ps, h')"
      "Option.bind (checked_mul p PAGE_SIZE) (checked_add ps) = Some (lim :: 'a word)"
      "r = Some ps" "s' = \<lparr>next = ps + aligned_size l, upper_limit = lim\<rparr>"
  | (fail) "r = None" "s' = s"
      "h' = h \<or> (\<exists>p q. required_pages (aligned_size l) = Some p \<and> rp s h p = Inr (q, h'))"
proof (cases "checked_add (next s) (aligned_size l)")
  case None
  with assms(2) show ?thesis by (simp add: alloc_overflow fail)
next
  case (Some e)
  show ?thesis
  proof (cases "upper_limit s < e")
    case False
    then have "e \<le> upper_limit s" by simp
    with Some assms(2) show ?thesis by (simp add: alloc_fits fits)
  next
    case True
    from assms(2) show ?thesis
      unfolding alloc_short_eq [OF assms(1) Some True]
      by (auto split: option.splits sum.splits prod.splits intro: fail grow [OF Some True])
  qed
qed


section \<open>Properties of one call\<close>

lemma grown_state_inv:
  assumes "16 < LENGTH('a::len)" "required_pages sz = Some p"
    and "Option.bind (checked_mul p PAGE_SIZE) (checked_add ps) = Some (lim :: 'a word)"
  shows "unat (ps + sz) = unat ps + unat sz" "unat ps + unat sz \<le> unat lim"
proof -
  show le: "unat ps + unat sz \<le> unat lim"
    using required_pages_covers(1) [OF assms(1,2)] grown_limit_unat(1) [OF assms(1,3)] by simp
  then show "unat (ps + sz) = unat ps + unat sz" by (rule unat_add_bounded)
qed

lemma alloc_tight:
  assumes len: "16 < LENGTH('a::len)"
    and inv: "inner_inv s" and tight: "headroom s < 65536"
    and run: "alloc rp l s h = Inr (r, s' :: 'a usize inner_alloc, h')"
  shows "inner_inv s' \<and> headroom s' < 65536"
  using len run
proof (cases rule: alloc_Inr_cases)
  case (fits e)
  have "unat e = unat (next s) + unat (aligned_size l)"
    using fits(1) by (rule checked_add_unat)
  with fits inv tight show ?thesis
    by (auto simp: inner_inv_unat headroom_def word_le_nat_alt)
next
  case (grow e p ps lim)
  from grown_state_inv [OF len grow(3,5)] grown_limit_unat(1) [OF len grow(5)]
    required_pages_covers(2) [OF len grow(3)] grow(7)
  show ?thesis by (simp add: inner_inv_unat headroom_def)
next
  case fail
  with inv tight show ?thesis by simp
qed

text \<open>C3: \<open>alloc\<close> keeps the state invariant \<open>next \<le> upper_limit\<close>, whatever
  the page source returns.\<close>

theorem alloc_preserves_inv:
  assumes "16 < LENGTH('a::len)" and "inner_inv (s :: 'a usize inner_alloc)"
    and "alloc rp l s h = Inr (r, s', h')"
  shows "inner_inv s'"
  using assms(1,3)
proof (cases rule: alloc_Inr_cases)
  case (fits e)
  then show ?thesis by (simp add: inner_inv_def)
next
  case (grow e p ps lim)
  then show ?thesis
    using grown_state_inv [OF assms(1) grow(3,5)] by (simp add: inner_inv_unat)
next
  case fail
  with assms(2) show ?thesis by simp
qed


theorem alloc_preserves_inv_witness:
  "inner_inv (new :: u64 inner_alloc) \<and>
   alloc request_pages_test (layout_new 1 1) (new :: u64 inner_alloc) () =
     Inr (Some 0, \<lparr>next = 1, upper_limit = 65536\<rparr>, ()) \<and>
   inner_inv (\<lparr>next = 1, upper_limit = 65536\<rparr> :: u64 inner_alloc)"
proof -
  have run: "alloc request_pages_test (layout_new 1 1) (new :: u64 inner_alloc) () =
     Inr (Some 0, \<lparr>next = 1, upper_limit = 65536\<rparr>, ())"
    by (simp add: alloc_eval)
  have "inner_inv (\<lparr>next = 1, upper_limit = 65536\<rparr> :: u64 inner_alloc)"
    by (rule alloc_preserves_inv [OF _ inner_inv_new run]) simp
  with run show ?thesis by simp
qed


lemma alloc_fits_unat:
  assumes "unat (next s) + unat (aligned_size l) \<le> unat (upper_limit s)"
  shows "alloc rp l s h = Inr (Some (next s), s\<lparr>next := next s + aligned_size l\<rparr>, h)"
proof -
  from assms have add: "checked_add (next s) (aligned_size l) = Some (next s + aligned_size l)"
    and u: "unat (next s + aligned_size l) = unat (next s) + unat (aligned_size l)"
    by (rule checked_add_bounded, rule unat_add_bounded)
  from assms u have "next s + aligned_size l \<le> upper_limit s"
    by (simp add: word_le_nat_alt)
  with add show ?thesis by (simp add: alloc_fits)
qed

text \<open>C4: a request that fits the current headroom is served from it: the old
  \<open>next\<close> is returned, \<open>next\<close> advances by exactly the padded size, the limit
  and the host are untouched and the page source is not consulted (the result
  is the same for every page source).\<close>

theorem alloc_headroom:
  assumes "unat (next s) + unat (aligned_size l) \<le> unat (upper_limit s)"
  shows "alloc rp l s h = Inr (Some (next s), s\<lparr>next := next s + aligned_size l\<rparr>, h)
       \<and> unat (next s + aligned_size l) = unat (next s) + unat (aligned_size l)"
  using assms by (simp add: alloc_fits_unat unat_add_bounded)

theorem alloc_headroom_witness:
  "alloc request_pages_std (layout_new 3 4) (\<lparr>next = 8, upper_limit = 65536\<rparr> :: u32 inner_alloc) () =
     Inr (Some 8, \<lparr>next = 12, upper_limit = 65536\<rparr>, ())"
proof -
  have pad: "aligned_size (layout_new 3 4 :: u32 layout) = 4"
    by (simp add: layout_defs layout_new_def)
  from alloc_headroom [of "\<lparr>next = 8, upper_limit = 65536\<rparr> :: u32 inner_alloc"
      "layout_new 3 4" request_pages_std "()"]
  have "alloc request_pages_std (layout_new 3 4) (\<lparr>next = 8, upper_limit = 65536\<rparr> :: u32 inner_alloc) () =
     Inr (Some 8, \<lparr>next = 12, upper_limit = 65536\<rparr>, ())"
    by (simp add: pad)
  moreover have "alloc request_pages_std (layout_new 3 4) (\<lparr>next = 8, upper_limit = 65536\<rparr> :: u32 inner_alloc) () =
     Inr (Some 8, \<lparr>next = 8 + 4, upper_limit = 65536\<rparr>, ())"
    by (simp add: alloc_eval)
  ultimately show ?thesis by simp
qed

text \<open>C32: a request of padded size zero is always served from the headroom:
  it returns the current \<open>next\<close> and changes nothing, so on a fresh allocator
  it returns address 0 and \<open>upper_limit\<close> stays 0 (no page is requested).\<close>

theorem alloc_zero_size:
  assumes "inner_inv s" and "aligned_size l = 0"
  shows "alloc rp l s h = Inr (Some (next s), s, h)"
  using assms alloc_fits_unat [of s l rp h] by (simp add: inner_inv_unat)

theorem alloc_zero_size_witness:
  "alloc request_pages_test (layout_new 0 1) (new :: u32 inner_alloc) () =
     Inr (Some 0, \<lparr>next = 0, upper_limit = 0\<rparr>, ())"
proof -
  have "alloc request_pages_test (layout_new 0 1) (new :: u32 inner_alloc) () =
      Inr (Some (next (new :: u32 inner_alloc)), new, ())"
    by (rule alloc_zero_size) (simp_all add: layout_defs layout_new_def)
  then show ?thesis by (simp add: new_def)
qed

text \<open>C7: a request that does not fit asks the page source for
  \<open>ceil (padded / 65536)\<close> pages and is placed at the base of the granted
  run: the result is the base, \<open>upper_limit\<close> is the base plus the granted
  bytes, \<open>next\<close> is the base plus the padded size; what was left of the old
  region is abandoned.\<close>

theorem alloc_grows:
  assumes len: "16 < LENGTH('a::len)"
    and short: "unat (upper_limit s) < unat (next s) + unat (aligned_size l)"
    and no_wrap: "unat (next s) + unat (aligned_size l) < 2 ^ LENGTH('a)"
    and pages: "required_pages (aligned_size l) = Some p"
    and grant: "rp s h p = Inr (Some (ps :: 'a word), h')"
    and room: "unat ps + unat p * 65536 < 2 ^ LENGTH('a)"
  shows "alloc rp l s h =
           Inr (Some ps, \<lparr>next = ps + aligned_size l, upper_limit = ps + p * PAGE_SIZE\<rparr>, h')
       \<and> unat (ps + p * PAGE_SIZE) = unat ps + ((unat (aligned_size l) + 65535) div 65536) * 65536
       \<and> unat (ps + aligned_size l) = unat ps + unat (aligned_size l)"
proof -
  from no_wrap have add: "checked_add (next s) (aligned_size l) = Some (next s + aligned_size l)"
    by (rule checked_add_SomeI)
  have lt: "upper_limit s < next s + aligned_size l"
    using short no_wrap by (simp add: word_less_nat_alt unat_add_no_overflow)
  have "unat p * unat (PAGE_SIZE :: 'a word) < 2 ^ LENGTH('a)"
    using room len by (simp add: unat_PAGE_SIZE)
  then have mul: "checked_mul p PAGE_SIZE = Some (p * PAGE_SIZE)"
    and um: "unat (p * PAGE_SIZE) = unat p * 65536"
    using len by (simp_all add: checked_mul_SomeI unat_mult_no_overflow unat_PAGE_SIZE)
  from room um have "checked_add ps (p * PAGE_SIZE) = Some (ps + p * PAGE_SIZE)"
    by (simp add: checked_add_SomeI)
  with mul have lim: "Option.bind (checked_mul p PAGE_SIZE) (checked_add ps) = Some (ps + p * PAGE_SIZE)"
    by simp
  have "alloc rp l s h =
           Inr (Some ps, \<lparr>next = ps + aligned_size l, upper_limit = ps + p * PAGE_SIZE\<rparr>, h')"
    by (rule alloc_grow [where rp = rp and s = s and h = h, OF len add lt pages grant lim])
  moreover
  have "unat (ps + p * PAGE_SIZE) = unat ps + ((unat (aligned_size l) + 65535) div 65536) * 65536"
    using grown_limit_unat(1) [OF len lim] required_pages_unat [OF len pages] by simp
  moreover have "unat (ps + aligned_size l) = unat ps + unat (aligned_size l)"
    by (rule grown_state_inv(1) [OF len pages lim])
  ultimately show ?thesis by simp
qed

theorem alloc_grows_witness:
  "alloc request_pages_test (layout_new 2 2) (\<lparr>next = 65535, upper_limit = 65536\<rparr> :: u32 inner_alloc) () =
     Inr (Some 65536, \<lparr>next = 65538, upper_limit = 131072\<rparr>, ())"
proof -
  have "alloc request_pages_test (layout_new 2 2) (\<lparr>next = 65535, upper_limit = 65536\<rparr> :: u32 inner_alloc) () =
      Inr (Some 65536, \<lparr>next = 65536 + aligned_size (layout_new 2 2),
        upper_limit = 65536 + 1 * PAGE_SIZE\<rparr>, ())"
    by (rule alloc_grows [where p = 1, THEN conjunct1]) (simp_all add: alloc_eval)
  then show ?thesis by (simp add: alloc_eval)
qed

text \<open>C8: a failed allocation leaves the allocator state as it was, on every
  failure path: overflow of the end address, overflow of the page count,
  refusal by the host, overflow of the new limit.\<close>

theorem alloc_None_unchanged:
  assumes "16 < LENGTH('a::len)"
    and "alloc rp l (s :: 'a usize inner_alloc) h = Inr (None, s', h')"
  shows "s' = s"
  using assms by (cases rule: alloc_Inr_cases) simp_all

theorem alloc_None_unchanged_witness:
  "alloc request_pages_wasm32 (layout_new 1 1) (\<lparr>next = 131072, upper_limit = 131072\<rparr> :: u32 inner_alloc)
     \<lparr>mem_pages = 2, mem_max = 2\<rparr> =
   Inr (None, \<lparr>next = 131072, upper_limit = 131072\<rparr>, \<lparr>mem_pages = 2, mem_max = 2\<rparr>)"
proof -
  let ?s = "\<lparr>next = 131072, upper_limit = 131072\<rparr> :: u32 inner_alloc"
  have run: "alloc request_pages_wasm32 (layout_new 1 1) ?s \<lparr>mem_pages = 2, mem_max = 2\<rparr> =
      Inr (None, \<lparr>next = 131072, upper_limit = 65536 + 65536\<rparr>, \<lparr>mem_pages = 2, mem_max = 2\<rparr>)"
    by (simp add: alloc_eval)
  have "\<lparr>next = 131072, upper_limit = 65536 + 65536\<rparr> = ?s"
    by (rule alloc_None_unchanged [OF _ run]) simp
  with run show ?thesis by simp
qed

text \<open>C9: a successful allocation hands out the region from the returned
  address up to the new \<open>next\<close>: its end is computed without wrap-around and
  lies within the granted memory.\<close>

theorem alloc_Some_region:
  assumes "16 < LENGTH('a::len)"
    and "alloc rp l s h = Inr (Some (a :: 'a word), s', h')"
  shows "unat a + unat (aligned_size l) = unat (next s') \<and> unat (next s') \<le> unat (upper_limit s')"
  using assms
proof (cases rule: alloc_Inr_cases)
  case (fits e)
  then show ?thesis using checked_add_unat [OF fits(1)] by (simp add: word_le_nat_alt)
next
  case (grow e p ps lim)
  then show ?thesis using grown_state_inv [OF assms(1) grow(3,5)] by simp
next
  case fail
  then show ?thesis by simp
qed

theorem alloc_Some_region_witness:
  "alloc request_pages_test (layout_new 5 4) (new :: u32 inner_alloc) () =
     Inr (Some 0, \<lparr>next = 8, upper_limit = 65536\<rparr>, ()) \<and>
   unat (0 :: u32) + unat (aligned_size (layout_new 5 4 :: u32 layout)) = 8"
proof -
  have run: "alloc request_pages_test (layout_new 5 4) (new :: u32 inner_alloc) () =
     Inr (Some 0, \<lparr>next = 8, upper_limit = 65536\<rparr>, ())"
    by (simp add: alloc_eval)
  from alloc_Some_region [OF _ run] run show ?thesis by simp
qed


section \<open>The page count is the ceiling of the quotient\<close>

lemma ceil_div_eq:
  assumes "0 < d" shows "ceil_div n d = (n + (d - 1)) div d"
proof -
  from assms obtain d' where d: "d = Suc d'" by (cases d) auto
  have n: "n = n mod d + n div d * d" by simp
  show ?thesis
  proof (cases "n mod d")
    case 0
    with n have "n + (d - 1) = d' + n div d * d" by (simp add: d)
    then have "(n + (d - 1)) div d = n div d + d' div d"
      using assms by (simp only: div_mult_self1)
    with 0 show ?thesis by (simp add: ceil_div_def d)
  next
    case (Suc r)
    have "r < d'" using Suc mod_less_divisor [OF assms, of n] by (simp add: d)
    from n Suc have "n + (d - 1) = r + (n div d + 1) * d" by (simp add: d)
    then have "(n + (d - 1)) div d = (n div d + 1) + r div d"
      using assms by (simp only: div_mult_self1)
    with Suc \<open>r < d'\<close> show ?thesis by (simp add: ceil_div_def d)
  qed
qed

text \<open>C10: \<open>required_pages size\<close> is the ceiling of \<open>size / 65536\<close>, and fails
  exactly when \<open>size + 65535\<close> overflows the address width.\<close>

theorem required_pages_ceil:
  assumes "16 < LENGTH('a::len)"
  shows "required_pages (sz :: 'a word) =
           (if unat sz + 65535 < 2 ^ LENGTH('a) then Some (of_nat (ceil_div (unat sz) 65536))
            else None)"
proof (cases "unat sz + 65535 < 2 ^ LENGTH('a)")
  case False
  then show ?thesis by (simp add: required_pages_None_iff [OF assms])
next
  case True
  then obtain p where p: "required_pages sz = Some p"
    by (auto simp: required_pages_Some_iff [OF assms])
  have u: "unat p = ceil_div (unat sz) 65536"
    using required_pages_unat [OF assms p] by (simp add: ceil_div_eq)
  have "p = of_nat (unat p)" by simp
  also have "\<dots> = of_nat (ceil_div (unat sz) 65536)" by (simp only: u)
  finally show ?thesis using p True by simp
qed

theorem required_pages_ceil_witness:
  "required_pages (65536 :: u32) = Some 1 \<and> required_pages (65537 :: u32) = Some 2 \<and>
   required_pages (0 :: u32) = Some 0 \<and> required_pages (4294901761 :: u32) = None"
proof -
  have "required_pages (65536 :: u32) = Some (0 + 1)"
    by (simp add: required_pages_def checked_defs PAGE_SIZE_def)
  with required_pages_ceil [of "65536 :: u32"] required_pages_ceil [of "65537 :: u32"]
    required_pages_ceil [of "0 :: u32"] required_pages_ceil [of "4294901761 :: u32"]
  show ?thesis by (simp add: ceil_div_def)
qed


section \<open>Failure and panic\<close>

lemma alloc_end_overflow:
  "2 ^ LENGTH('a) \<le> unat (next s) + unat (aligned_size l :: 'a::len word) \<Longrightarrow>
     alloc rp l s h = Inr (None, s, h)"
  by (simp add: alloc_overflow checked_add_None_iff)

lemma alloc_count_overflow:
  assumes "16 < LENGTH('a::len)"
    and "unat (upper_limit s) < unat (next s) + unat (aligned_size l)"
    and "2 ^ LENGTH('a) \<le> unat (aligned_size l :: 'a word) + 65535"
  shows "alloc rp l s h = Inr (None, s, h)"
proof (cases "checked_add (next s) (aligned_size l)")
  case None
  then show ?thesis by (rule alloc_overflow)
next
  case (Some e)
  then have "unat e = unat (next s) + unat (aligned_size l)" by (rule checked_add_unat)
  with assms(2,3) have "upper_limit s < e" "required_pages (aligned_size l) = None"
    by (simp_all add: word_less_nat_alt required_pages_None_iff [OF assms(1)])
  with Some show ?thesis by (simp add: alloc_pages_overflow)
qed

text \<open>C23: a request whose end address, or whose page count when pages are
  needed, overflows the address width fails; the state and the host are as
  before, and the page source is never called.\<close>

theorem alloc_overflow_fails:
  assumes "16 < LENGTH('a::len)"
    and "2 ^ LENGTH('a) \<le> unat (next s) + unat (aligned_size l) \<or>
         unat (upper_limit s) < unat (next s) + unat (aligned_size l) \<and>
         2 ^ LENGTH('a) \<le> unat (aligned_size l :: 'a word) + 65535"
  shows "alloc rp l s h = Inr (None, s, h)"
  using assms by (auto simp: alloc_end_overflow alloc_count_overflow)

theorem alloc_overflow_fails_witness:
  "alloc request_pages_test (layout_new 4294967288 8) (new :: u32 inner_alloc) () =
     Inr (None, new, ()) \<and>
   alloc request_pages_test (layout_new 16 8) (\<lparr>next = 4294967288, upper_limit = 4294967295\<rparr> :: u32 inner_alloc) () =
     Inr (None, \<lparr>next = 4294967288, upper_limit = 4294967295\<rparr>, ())"
  using alloc_overflow_fails [of "new :: u32 inner_alloc" "layout_new 4294967288 8" request_pages_test "()"]
    alloc_overflow_fails [of "\<lparr>next = 4294967288, upper_limit = 4294967295\<rparr> :: u32 inner_alloc"
      "layout_new 16 8" request_pages_test "()"]
  by (simp add: layout_defs layout_new_def)

lemma alloc_Inl_source:
  assumes "16 < LENGTH('a::len)" and "alloc rp l (s :: 'a usize inner_alloc) h = Inl x"
  shows "\<exists>p. rp s h p = Inl x"
proof (cases "checked_add (next s) (aligned_size l)")
  case None
  with assms(2) show ?thesis by (simp add: alloc_overflow)
next
  case (Some e)
  show ?thesis
  proof (cases "upper_limit s < e")
    case False
    then have "e \<le> upper_limit s" by simp
    with Some assms(2) show ?thesis by (simp add: alloc_fits)
  next
    case True
    from assms(2) show ?thesis
      unfolding alloc_short_eq [OF assms(1) Some True]
      by (auto split: option.splits sum.splits prod.splits)
  qed
qed

text \<open>C24: \<open>alloc\<close> panics only when the page source does, and then it was
  called with the page count of the request, after the end address was
  computed without overflow and found beyond the limit.\<close>

theorem alloc_panic_from_source:
  assumes "16 < LENGTH('a::len)" and "alloc rp l (s :: 'a usize inner_alloc) h = Inl x"
  shows "\<exists>p. required_pages (aligned_size l) = Some p \<and> rp s h p = Inl x \<and>
             unat (upper_limit s) < unat (next s) + unat (aligned_size l) \<and>
             unat (next s) + unat (aligned_size l) < 2 ^ LENGTH('a)"
proof (cases "checked_add (next s) (aligned_size l)")
  case None
  with assms(2) show ?thesis by (simp add: alloc_overflow)
next
  case (Some e)
  note e = checked_add_unat [OF Some]
  show ?thesis
  proof (cases "upper_limit s < e")
    case False
    then have "e \<le> upper_limit s" by simp
    with Some assms(2) show ?thesis by (simp add: alloc_fits)
  next
    case True
    from assms(2) show ?thesis
      unfolding alloc_short_eq [OF assms(1) Some True]
      using True Some e
      by (auto simp: word_less_nat_alt checked_add_Some_iff
          split: option.splits sum.splits prod.splits)
  qed
qed

theorem alloc_panic_from_source_witness:
  "alloc request_pages_std (layout_new 1 1) (new :: u32 inner_alloc) () = Inl Unreachable \<and>
   (\<exists>p. required_pages (aligned_size (layout_new 1 1 :: u32 layout)) = Some p \<and>
      request_pages_std (new :: u32 inner_alloc) () p = Inl Unreachable)"
proof -
  have run: "alloc request_pages_std (layout_new 1 1) (new :: u32 inner_alloc) () = Inl Unreachable"
    by (simp add: alloc_eval)
  from alloc_panic_from_source [OF _ run] run show ?thesis by auto
qed

lemma request_pages_test_Inr:
  "request_pages_test s h p = Inr (Some (upper_limit s), h)"
  by (simp add: request_pages_test_def)

section \<open>The whole of \<open>alloc\<close>, over natural numbers\<close>

lemma grown_limit_eq:
  assumes "16 < LENGTH('a::len)" "required_pages sz = Some (p :: 'a word)"
  shows "Option.bind (checked_mul p PAGE_SIZE) (checked_add ps) =
    (if unat ps + unat p * 65536 < 2 ^ LENGTH('a) then Some (ps + p * PAGE_SIZE) else None)"
  by (simp add: required_pages_mul [OF assms] checked_add_def)

lemma alloc_nat_eq:
  assumes len: "16 < LENGTH('a::len)"
  shows "alloc rp l (s :: 'a usize inner_alloc) h =
    (if unat (next s) + unat (aligned_size l) \<le> unat (upper_limit s)
     then Inr (Some (next s), s\<lparr>next := next s + aligned_size l\<rparr>, h)
     else if 2 ^ LENGTH('a) \<le> unat (next s) + unat (aligned_size l) then Inr (None, s, h)
     else (case required_pages (aligned_size l) of
             None \<Rightarrow> Inr (None, s, h)
           | Some p \<Rightarrow>
              (case rp s h p of
                 Inl x \<Rightarrow> Inl x
               | Inr (None, h') \<Rightarrow> Inr (None, s, h')
               | Inr (Some ps, h') \<Rightarrow>
                   if 2 ^ LENGTH('a) \<le> unat ps + unat p * 65536 then Inr (None, s, h')
                   else Inr (Some ps,
                     \<lparr>next = ps + aligned_size l, upper_limit = ps + p * PAGE_SIZE\<rparr>, h'))))"
proof (cases "unat (next s) + unat (aligned_size l) \<le> unat (upper_limit s)")
  case True
  then show ?thesis by (simp add: alloc_fits_unat)
next
  case short: False
  show ?thesis
  proof (cases "2 ^ LENGTH('a) \<le> unat (next s) + unat (aligned_size l)")
    case True
    with short show ?thesis by (simp add: alloc_end_overflow)
  next
    case False
    then have add: "checked_add (next s) (aligned_size l) = Some (next s + aligned_size l)"
      by (simp add: checked_add_SomeI)
    have lt: "upper_limit s < next s + aligned_size l"
      using False short by (simp add: word_less_nat_alt unat_add_no_overflow)
    show ?thesis using short False
      by (simp add: alloc_short_eq [OF len add lt] grown_limit_eq [OF len] not_less
          split: option.split sum.split prod.split)
  qed
qed

lemma required_pages_pos:
  assumes "16 < LENGTH('a::len)" "required_pages sz = Some (p :: 'a word)" "sz \<noteq> 0"
  shows "p \<noteq> 0"
proof -
  from assms(3) have "0 < unat sz" by (simp add: unat_gt_0)
  with required_pages_unat [OF assms(1,2)] have "0 < unat p" by simp
  then show ?thesis by (simp add: unat_gt_0)
qed

text \<open>C21: an allocator whose state satisfies the invariant asks the page
  source for at least one page, or not at all: two page sources that agree on
  every positive page count give the same result.\<close>

theorem alloc_requests_positive:
  assumes len: "16 < LENGTH('a::len)" and inv: "inner_inv s"
    and agree: "\<And>p. p \<noteq> 0 \<Longrightarrow> rp s h p = rp' s h p"
  shows "alloc rp l (s :: 'a usize inner_alloc) h = alloc rp' l s h"
proof (cases "unat (next s) + unat (aligned_size l) \<le> unat (upper_limit s)")
  case True
  then show ?thesis by (simp add: alloc_nat_eq [OF len])
next
  case False
  with inv have "aligned_size l \<noteq> 0" by (auto simp: inner_inv_unat)
  then have "\<And>p. required_pages (aligned_size l) = Some p \<Longrightarrow> rp s h p = rp' s h p"
    by (auto intro: agree dest: required_pages_pos [OF len])
  then show ?thesis by (simp add: alloc_nat_eq [OF len] split: option.split)
qed

theorem alloc_requests_positive_witness:
  "alloc (\<lambda>s h p. if p = 0 then Inl Unreachable else request_pages_test s h p) (layout_new 1 1)
     (new :: u32 inner_alloc) () = Inr (Some 0, \<lparr>next = 1, upper_limit = 65536\<rparr>, ())"
proof -
  have "alloc request_pages_test (layout_new 1 1) (new :: u32 inner_alloc) () =
      Inr (Some 0, \<lparr>next = 1, upper_limit = 65536\<rparr>, ())"
    by (simp add: alloc_eval)
  with alloc_requests_positive [of "new :: u32 inner_alloc"
      "\<lambda>s h p. if p = 0 then Inl Unreachable else request_pages_test s h p" "()"
      request_pages_test "layout_new 1 1"]
  show ?thesis by simp
qed

text \<open>C25: in a std build outside of tests the allocator serves a request from
  the headroom it has, fails on overflow, and panics as soon as pages are
  needed: with the initial state every request of non-zero padded size that
  does not overflow panics.\<close>

theorem alloc_std:
  assumes "16 < LENGTH('a::len)"
  shows "alloc request_pages_std l (s :: 'a usize inner_alloc) h =
    (if unat (next s) + unat (aligned_size l) \<le> unat (upper_limit s)
       then Inr (Some (next s), s\<lparr>next := next s + aligned_size l\<rparr>, h)
     else if 2 ^ LENGTH('a) \<le> unat (next s) + unat (aligned_size l)
          \<or> 2 ^ LENGTH('a) \<le> unat (aligned_size l) + 65535
       then Inr (None, s, h)
     else Inl Unreachable)"
  using required_pages_None_iff [OF assms, of "aligned_size l"]
  by (auto simp: alloc_nat_eq [OF assms] request_pages_std_def split: option.split)

theorem alloc_std_witness:
  "alloc request_pages_std (layout_new 0 1) (new :: u32 inner_alloc) () = Inr (Some 0, new, ()) \<and>
   alloc request_pages_std (layout_new 1 1) (new :: u32 inner_alloc) () = Inl Unreachable"
  using alloc_std [of "layout_new 0 1" "new :: u32 inner_alloc" "()"]
    alloc_std [of "layout_new 1 1" "new :: u32 inner_alloc" "()"]
  by (simp add: layout_defs layout_new_def new_def)



section \<open>The test build\<close>

text \<open>C6: the allocator as the tests run it, on every branch: a request is
  served from the headroom; fails when its end address, its page count or the
  new limit is not representable; and is otherwise placed at the old
  \<open>upper_limit\<close>, which grows by the pages requested. The host is never
  touched and the call never panics.\<close>

theorem alloc_test:
  assumes "16 < LENGTH('a::len)"
  shows "alloc request_pages_test l (s :: 'a usize inner_alloc) h =
    (if unat (next s) + unat (aligned_size l) \<le> unat (upper_limit s)
     then Inr (Some (next s), s\<lparr>next := next s + aligned_size l\<rparr>, h)
     else if 2 ^ LENGTH('a) \<le> unat (next s) + unat (aligned_size l) then Inr (None, s, h)
     else (case required_pages (aligned_size l) of
             None \<Rightarrow> Inr (None, s, h)
           | Some p \<Rightarrow>
               if 2 ^ LENGTH('a) \<le> unat (upper_limit s) + unat p * 65536 then Inr (None, s, h)
               else Inr (Some (upper_limit s),
                 \<lparr>next = upper_limit s + aligned_size l,
                  upper_limit = upper_limit s + p * PAGE_SIZE\<rparr>, h)))"
  by (simp add: alloc_nat_eq [OF assms] request_pages_test_Inr split: option.split)

theorem alloc_test_witness:
  "alloc request_pages_test (layout_new 2 2) (\<lparr>next = 65535, upper_limit = 65536\<rparr> :: u32 inner_alloc) () =
     Inr (Some 65536, \<lparr>next = 65538, upper_limit = 131072\<rparr>, ()) \<and>
   alloc request_pages_test (layout_new 1 1) (\<lparr>next = 131072, upper_limit = 131072\<rparr> :: u32 inner_alloc) () =
     Inr (Some 131072, \<lparr>next = 131073, upper_limit = 196608\<rparr>, ()) \<and>
   alloc request_pages_test (layout_new 4294901761 1) (new :: u32 inner_alloc) () = Inr (None, new, ())"
proof -
  have "alloc request_pages_test (layout_new 2 2) (\<lparr>next = 65535, upper_limit = 65536\<rparr> :: u32 inner_alloc) () =
     Inr (Some 65536, \<lparr>next = 65538, upper_limit = 131072\<rparr>, ())"
    by (simp add: alloc_eval)
  with alloc_test [of "layout_new 2 2" "\<lparr>next = 65535, upper_limit = 65536\<rparr> :: u32 inner_alloc" "()"]
    alloc_test [of "layout_new 1 1" "\<lparr>next = 131072, upper_limit = 131072\<rparr> :: u32 inner_alloc" "()"]
    alloc_test [of "layout_new 4294901761 1" "new :: u32 inner_alloc" "()"]
  show ?thesis
    by (simp add: required_pages_def layout_defs layout_new_def checked_defs PAGE_SIZE_def new_def)
qed

end
