(* ===== verification/Bump_Spec.thy ===== *)
theory Bump_Spec
  imports Bump_Alloc
begin

text \<open>
  The abstract specification of bump allocation and the refinement of
  \<open>alloc\<close> to it. The abstract state is the pair of cursors as natural
  numbers, with no address width; an abstract step serves a request from the
  headroom, or places it at a base at or above the limit that the environment
  chooses, or refuses it. The properties the specification of the allocator
  asks for (the cursors only grow, the regions handed out are disjoint and in
  increasing order) are proved once, of abstract runs, by rule induction; they
  hold of the allocator because every call of \<open>alloc\<close> with a page source
  that satisfies \<open>ps_fresh\<close> is an abstract step between the abstractions of
  its states.
\<close>

record astate =
  a_next :: nat
  a_limit :: nat

definition abs_state :: "'a::len usize inner_alloc \<Rightarrow> astate" where
  "abs_state s = \<lparr>a_next = unat (next s), a_limit = unat (upper_limit s)\<rparr>"

definition a_inv :: "astate \<Rightarrow> bool" where
  "a_inv s \<longleftrightarrow> a_next s \<le> a_limit s"

inductive bump_step :: "astate \<Rightarrow> nat \<Rightarrow> nat option \<Rightarrow> astate \<Rightarrow> bool" where
  fit: "a_next s + n \<le> a_limit s \<Longrightarrow>
     bump_step s n (Some (a_next s)) (s\<lparr>a_next := a_next s + n\<rparr>)"
| grow: "a_limit s < a_next s + n \<Longrightarrow> a_limit s \<le> base \<Longrightarrow>
     bump_step s n (Some base) \<lparr>a_next = base + n, a_limit = base + ceil_div n 65536 * 65536\<rparr>"
| refuse: "bump_step s n None s"

inductive bump_run :: "astate \<Rightarrow> (nat \<times> nat option) list \<Rightarrow> astate \<Rightarrow> bool" where
  idle: "bump_run s [] s"
| step: "bump_step s n r s' \<Longrightarrow> bump_run s' tr s'' \<Longrightarrow> bump_run s ((n, r) # tr) s''"

fun step_ok :: "astate \<Rightarrow> nat \<Rightarrow> nat option \<Rightarrow> astate \<Rightarrow> bool" where
  "step_ok s n None s' = (s' = s)"
| "step_ok s n (Some a) s' =
     (if a_next s + n \<le> a_limit s then a = a_next s \<and> s' = s\<lparr>a_next := a_next s + n\<rparr>
      else a_limit s \<le> a \<and> s' = \<lparr>a_next = a + n, a_limit = a + ceil_div n 65536 * 65536\<rparr>)"

inductive_cases bump_step_SomeE: "bump_step s n (Some a) s'"
inductive_cases bump_step_NoneE: "bump_step s n None s'"
inductive_cases bump_run_NilE: "bump_run s [] s'"
inductive_cases bump_run_ConsE: "bump_run s (e # tr) s'"

fun regions :: "(nat \<times> nat option) list \<Rightarrow> (nat \<times> nat) list" where
  "regions [] = []"
| "regions ((n, Some a) # tr) = (a, n) # regions tr"
| "regions ((n, None) # tr) = regions tr"

fun packed :: "nat \<Rightarrow> (nat \<times> nat) list \<Rightarrow> bool" where
  "packed lo [] = True"
| "packed lo ((a, n) # rs) = (lo \<le> a \<and> packed (a + n) rs)"

fun separated :: "(nat \<times> nat) list \<Rightarrow> bool" where
  "separated [] = True"
| "separated ((a, n) # rs) = (list_all (\<lambda>(b, k). a + n \<le> b) rs \<and> separated rs)"

fun alloc_run ::
  "('a::len, 'h) page_source \<Rightarrow> 'a usize layout list \<Rightarrow> 'a usize inner_alloc \<Rightarrow> 'h \<Rightarrow>
     panic + ('a usize option list \<times> 'a usize inner_alloc \<times> 'h)" where
  "alloc_run rp [] s h = Inr ([], s, h)"
| "alloc_run rp (l # ls) s h =
     (case alloc rp l s h of
        Inl p \<Rightarrow> Inl p
      | Inr (r, s', h') \<Rightarrow>
          (case alloc_run rp ls s' h' of
             Inl p \<Rightarrow> Inl p
           | Inr (rs, s'', h'') \<Rightarrow> Inr (r # rs, s'', h'')))"

definition trace_of :: "'a::len usize layout list \<Rightarrow> 'a usize option list \<Rightarrow> (nat \<times> nat option) list" where
  "trace_of ls rs = zip (map (\<lambda>l. unat (aligned_size l)) ls) (map (map_option unat) rs)"

definition start_aligned :: "'a::len usize layout \<Rightarrow> 'a usize option \<Rightarrow> bool" where
  "start_aligned l r = (case r of None \<Rightarrow> True | Some p \<Rightarrow> unat p mod unat (l_align l) = 0)"


section \<open>Abstract steps\<close>

lemma bump_step_iff [code]: "bump_step s n r s' \<longleftrightarrow> step_ok s n r s'"
proof
  show "bump_step s n r s' \<Longrightarrow> step_ok s n r s'"
    by (induction rule: bump_step.induct) auto
  show "step_ok s n r s' \<Longrightarrow> bump_step s n r s'"
    by (cases r) (auto simp: not_le intro: bump_step.intros split: if_splits)
qed

lemma ceil_div_covers: "n \<le> ceil_div n 65536 * 65536"
proof -
  have "n = n div 65536 * 65536 + n mod 65536" by simp
  moreover have "n mod 65536 < 65536" by simp
  ultimately show ?thesis unfolding ceil_div_def by (cases "n mod 65536 = 0") simp_all
qed

lemma bump_step_inv: "bump_step s n r s' \<Longrightarrow> a_inv s \<Longrightarrow> a_inv s'"
  by (induction rule: bump_step.induct) (simp_all add: a_inv_def ceil_div_covers)

lemma bump_step_mono:
  "bump_step s n r s' \<Longrightarrow> a_inv s \<Longrightarrow> a_next s \<le> a_next s' \<and> a_limit s \<le> a_limit s'"
  by (induction rule: bump_step.induct) (auto simp: a_inv_def intro: trans_le_add1)

lemma bump_step_region:
  "bump_step s n (Some a) s' \<Longrightarrow> a_inv s \<Longrightarrow> a_next s \<le> a \<and> a_next s' = a + n"
  by (erule bump_step_SomeE) (auto simp: a_inv_def)

lemma bump_step_refused: "bump_step s n None s' \<Longrightarrow> s' = s"
  by (erule bump_step_NoneE)


section \<open>Abstract runs\<close>

lemma bump_run_inv: "bump_run s tr s' \<Longrightarrow> a_inv s \<Longrightarrow> a_inv s'"
  by (induction rule: bump_run.induct) (auto intro: bump_step_inv)

lemma bump_run_mono:
  "bump_run s tr s' \<Longrightarrow> a_inv s \<Longrightarrow> a_next s \<le> a_next s' \<and> a_limit s \<le> a_limit s'"
proof (induction rule: bump_run.induct)
  case (idle s)
  show ?case by simp
next
  case (step s n r s' tr s'')
  from step.hyps(1) step.prems have "a_inv s'" "a_next s \<le> a_next s' \<and> a_limit s \<le> a_limit s'"
    by (rule bump_step_inv, rule bump_step_mono)
  with step.IH show ?case by auto
qed

lemma bump_run_packed:
  "bump_run s tr s' \<Longrightarrow> a_inv s \<Longrightarrow> packed (a_next s) (regions tr)"
proof (induction rule: bump_run.induct)
  case (idle s)
  show ?case by simp
next
  case (step s n r s' tr s'')
  from step.hyps(1) step.prems have inv: "a_inv s'" by (rule bump_step_inv)
  show ?case
  proof (cases r)
    case None
    with step.hyps(1) have "s' = s" by (simp add: bump_step_refused)
    with None step.IH inv show ?thesis by simp
  next
    case (Some a)
    with step.hyps(1) step.prems have "a_next s \<le> a \<and> a_next s' = a + n"
      by (simp add: bump_step_region)
    with Some step.IH inv show ?thesis by simp
  qed
qed

lemma packed_lower: "packed lo rs \<Longrightarrow> list_all (\<lambda>(b, k). lo \<le> b) rs"
proof (induction rs arbitrary: lo)
  case Nil
  show ?case by simp
next
  case (Cons r rs)
  obtain a n where r: "r = (a, n)" by (cases r)
  from Cons.prems have "lo \<le> a" "packed (a + n) rs" by (simp_all add: r)
  from Cons.IH [OF this(2)] \<open>lo \<le> a\<close> show ?case
    by (auto simp: r list_all_iff)
qed

lemma packed_separated: "packed lo rs \<Longrightarrow> separated rs"
proof (induction rs arbitrary: lo)
  case Nil
  show ?case by simp
next
  case (Cons r rs)
  obtain a n where r: "r = (a, n)" by (cases r)
  from Cons.prems have p: "packed (a + n) rs" by (simp add: r)
  from packed_lower [OF p] Cons.IH [OF p] show ?case by (simp add: r)
qed

lemma packed_sorted: "packed lo rs \<Longrightarrow> sorted (map fst rs)"
proof (induction rs arbitrary: lo)
  case Nil
  show ?case by simp
next
  case (Cons r rs)
  obtain a n where r: "r = (a, n)" by (cases r)
  from Cons.prems have p: "packed (a + n) rs" by (simp add: r)
  from packed_lower [OF p] have "\<forall>q \<in> set rs. a \<le> fst q" by (auto simp: list_all_iff)
  with Cons.IH [OF p] show ?case by (simp add: r)
qed

lemma packed_strict:
  "packed lo rs \<Longrightarrow> list_all (\<lambda>(b, k). 0 < k) rs \<Longrightarrow> sorted_wrt (<) (map fst rs)"
proof (induction rs arbitrary: lo)
  case Nil
  show ?case by simp
next
  case (Cons r rs)
  obtain a n where r: "r = (a, n)" by (cases r)
  from Cons.prems have p: "packed (a + n) rs" and n: "0 < n" and pos: "list_all (\<lambda>(b, k). 0 < k) rs"
    by (simp_all add: r)
  from packed_lower [OF p] n have "\<forall>q \<in> set rs. a < fst q" by (auto simp: list_all_iff)
  with Cons.IH [OF p pos] show ?case by (simp add: r)
qed


lemma separated_filter: "separated rs \<Longrightarrow> separated (filter P rs)"
proof (induction rs)
  case Nil
  show ?case by simp
next
  case (Cons r rs)
  obtain a n where r: "r = (a, n)" by (cases r)
  from Cons show ?case by (auto simp: r list_all_iff)
qed

lemma packed_total:
  "packed lo rs \<Longrightarrow> list_all (\<lambda>(a, n). (0 < n \<longrightarrow> base \<le> a) \<and> a + n \<le> hi) rs \<Longrightarrow>
     lo \<le> hi \<Longrightarrow> base \<le> hi \<Longrightarrow> max lo base + sum_list (map snd rs) \<le> hi"
proof (induction rs arbitrary: lo)
  case Nil
  then show ?case by simp
next
  case (Cons r rs)
  obtain a n where r: "r = (a, n)" by (cases r)
  from Cons.prems r have "max (a + n) base + sum_list (map snd rs) \<le> hi"
    by (intro Cons.IH) simp_all
  with Cons.prems(1,2) r show ?case by (cases "n = 0") (auto simp: max_def split: if_splits)
qed

lemma regions_trace_total:
  "length rs = length ls \<Longrightarrow> None \<notin> set rs \<Longrightarrow>
     sum_list (map snd (regions (trace_of ls rs))) = sum_list (map (\<lambda>l. unat (aligned_size l)) ls)"
proof (induction rs ls rule: list_induct2)
  case Nil
  show ?case by (simp add: trace_of_def)
next
  case (Cons r rs l ls)
  from Cons.prems obtain a where "r = Some a" by (cases r) auto
  with Cons show ?case by (simp add: trace_of_def)
qed

lemma bump_run_within:
  "bump_run s tr s' \<Longrightarrow> a_inv s \<Longrightarrow>
     list_all (\<lambda>(a, n). a_next s \<le> a \<and> a + n \<le> a_next s') (regions tr)"
proof (induction rule: bump_run.induct)
  case (idle s)
  show ?case by simp
next
  case (step s n r s' tr s'')
  from step.hyps(1) step.prems have inv: "a_inv s'" and mono: "a_next s \<le> a_next s'"
    by (auto dest: bump_step_inv bump_step_mono)
  from step.IH [OF inv] mono
  have rest: "list_all (\<lambda>(a, n). a_next s \<le> a \<and> a + n \<le> a_next s'') (regions tr)"
    by (auto simp: list_all_iff)
  show ?case
  proof (cases r)
    case None
    with rest show ?thesis by simp
  next
    case (Some a)
    with step.hyps(1) step.prems have "a_next s \<le> a \<and> a_next s' = a + n"
      by (simp add: bump_step_region)
    moreover have "a_next s' \<le> a_next s''"
      using bump_run_mono [OF step.hyps(2) inv] by simp
    ultimately show ?thesis using Some rest by simp
  qed
qed


section \<open>The allocator refines the specification\<close>

lemma abs_state_sel [simp]:
  "a_next (abs_state s) = unat (next s)" "a_limit (abs_state s) = unat (upper_limit s)"
  by (simp_all add: abs_state_def)

lemma a_inv_abs [simp]: "a_inv (abs_state s) \<longleftrightarrow> inner_inv s"
  by (simp add: a_inv_def inner_inv_unat)

lemma alloc_abs_step:
  assumes len: "16 < LENGTH('a::len)" and fresh: "ps_fresh J rp"
    and J: "J (upper_limit s) h"
    and run: "alloc rp l s h = Inr (r, s' :: 'a usize inner_alloc, h')"
  shows "bump_step (abs_state s) (unat (aligned_size l)) (map_option unat r) (abs_state s')"
  using len run
proof (cases rule: alloc_Inr_cases)
  case (fits e)
  have e: "unat e = unat (next s) + unat (aligned_size l)"
    using fits(1) by (rule checked_add_unat)
  with fits(2) have "a_next (abs_state s) + unat (aligned_size l) \<le> a_limit (abs_state s)"
    by (simp add: word_le_nat_alt)
  from bump_step.fit [OF this] fits e show ?thesis by (simp add: abs_state_def)
next
  case (grow e p ps lim)
  have e: "unat e = unat (next s) + unat (aligned_size l)"
    using grow(1) by (rule checked_add_unat)
  with grow(2) have short: "a_limit (abs_state s) < a_next (abs_state s) + unat (aligned_size l)"
    by (simp add: word_less_nat_alt)
  have above: "a_limit (abs_state s) \<le> unat ps"
    using ps_fresh_above [OF fresh J grow(4)] by simp
  have "unat lim = unat ps + ceil_div (unat (aligned_size l)) 65536 * 65536"
    using grown_limit_unat(1) [OF len grow(5)] required_pages_unat [OF len grow(3)]
    by (simp add: ceil_div_eq)
  with bump_step.grow [OF short above] grow grown_state_inv(1) [OF len grow(3,5)]
  show ?thesis by (simp add: abs_state_def)
next
  case fail
  then show ?thesis by (simp add: bump_step.refuse)
qed

lemma alloc_coupling:
  assumes len: "16 < LENGTH('a::len)" and fresh: "ps_fresh J rp"
    and J: "J (upper_limit s) h"
    and run: "alloc rp l s h = Inr (r, s' :: 'a usize inner_alloc, h')"
  shows "J (upper_limit s') h'"
  using len run
proof (cases rule: alloc_Inr_cases)
  case (fits e)
  with J show ?thesis by simp
next
  case (grow e p ps lim)
  from ps_fresh_grown [OF fresh J grow(4) grown_limit_unat(1) [OF len grow(5)]] grow(7)
  show ?thesis by simp
next
  case fail
  with J ps_fresh_host [OF fresh J] show ?thesis by auto
qed

lemma alloc_region_step:
  assumes len: "16 < LENGTH('a::len)" and fresh: "ps_fresh J rp"
    and J: "J (upper_limit s) h" and inv: "inner_inv s"
    and run: "alloc rp l s h = Inr (r, s' :: 'a usize inner_alloc, h')"
  shows "inner_inv s'" "unat (next s) \<le> unat (next s')"
    and "r = Some a \<Longrightarrow> unat (next s) \<le> unat a \<and> unat (next s') = unat a + unat (aligned_size l)"
proof -
  note step = alloc_abs_step [OF len fresh J run]
  from inv have a: "a_inv (abs_state s)" by simp
  from bump_step_inv [OF step a] show "inner_inv s'" by simp
  from bump_step_mono [OF step a] show "unat (next s) \<le> unat (next s')" by simp
  assume "r = Some a"
  with step have "bump_step (abs_state s) (unat (aligned_size l)) (Some (unat a)) (abs_state s')"
    by simp
  from bump_step_region [OF this a]
  show "unat (next s) \<le> unat a \<and> unat (next s') = unat a + unat (aligned_size l)" by simp
qed

text \<open>C2: one call of \<open>alloc\<close> with a page source that grants fresh pages is
  a step of the abstract bump allocator between the abstractions of the states
  before and after, with the padded size as the request and the returned
  address as the result; and the coupling with the host holds again.\<close>

theorem alloc_refines_bump_step:
  assumes "16 < LENGTH('a::len)" and "ps_fresh J rp" and "J (upper_limit s) h"
    and "alloc rp l s h = Inr (r, s' :: 'a usize inner_alloc, h')"
  shows "bump_step (abs_state s) (unat (aligned_size l)) (map_option unat r) (abs_state s')
       \<and> J (upper_limit s') h'"
  using assms by (blast intro: alloc_abs_step alloc_coupling)

theorem alloc_refines_bump_step_witness:
  "alloc request_pages_test (layout_new 2 2) (\<lparr>next = 65534, upper_limit = 65536\<rparr> :: u32 inner_alloc) () =
     Inr (Some 65534, \<lparr>next = 65536, upper_limit = 65536\<rparr>, ()) \<and>
   bump_step \<lparr>a_next = 65534, a_limit = 65536\<rparr> 2 (Some 65534) \<lparr>a_next = 65536, a_limit = 65536\<rparr> \<and>
   alloc request_pages_test (layout_new 2 2) (\<lparr>next = 65535, upper_limit = 65536\<rparr> :: u32 inner_alloc) () =
     Inr (Some 65536, \<lparr>next = 65538, upper_limit = 131072\<rparr>, ()) \<and>
   bump_step \<lparr>a_next = 65535, a_limit = 65536\<rparr> 2 (Some 65536) \<lparr>a_next = 65538, a_limit = 131072\<rparr>"
proof -
  have fit: "alloc request_pages_test (layout_new 2 2) (\<lparr>next = 65534, upper_limit = 65536\<rparr> :: u32 inner_alloc) () =
     Inr (Some 65534, \<lparr>next = 65536, upper_limit = 65536\<rparr>, ())"
    by (simp add: alloc_eval)
  have grow: "alloc request_pages_test (layout_new 2 2) (\<lparr>next = 65535, upper_limit = 65536\<rparr> :: u32 inner_alloc) () =
     Inr (Some 65536, \<lparr>next = 65538, upper_limit = 131072\<rparr>, ())"
    by (simp add: alloc_eval)
  from alloc_refines_bump_step [OF _ ps_fresh_test _ fit] alloc_refines_bump_step [OF _ ps_fresh_test _ grow]
    fit grow
  show ?thesis by (simp add: abs_state_def layout_defs layout_new_def)
qed


section \<open>Runs of the allocator\<close>

lemma alloc_run_Cons_Inr:
  "alloc_run rp (l # ls) s h = Inr (rs, s'', h'') \<longleftrightarrow>
     (\<exists>r rs' s' h'. alloc rp l s h = Inr (r, s', h') \<and>
        alloc_run rp ls s' h' = Inr (rs', s'', h'') \<and> rs = r # rs')"
  by (auto split: sum.splits prod.splits)

lemma alloc_run_sim:
  assumes len: "16 < LENGTH('a::len)" and fresh: "ps_fresh J rp"
  shows "J (upper_limit s) h \<Longrightarrow>
     alloc_run rp ls s h = Inr (rs, s' :: 'a usize inner_alloc, h') \<Longrightarrow>
     bump_run (abs_state s) (trace_of ls rs) (abs_state s') \<and> J (upper_limit s') h' \<and>
     length rs = length ls"
proof (induction ls arbitrary: s h rs)
  case Nil
  then show ?case by (auto simp: trace_of_def intro: bump_run.idle)
next
  case (Cons l ls)
  from Cons.prems(2) obtain r rs' s1 h1 where one: "alloc rp l s h = Inr (r, s1, h1)"
    and rest: "alloc_run rp ls s1 h1 = Inr (rs', s', h')" and rs: "rs = r # rs'"
    unfolding alloc_run_Cons_Inr by blast
  note J1 = alloc_coupling [OF len fresh Cons.prems(1) one]
  from Cons.IH [OF J1 rest] alloc_abs_step [OF len fresh Cons.prems(1) one]
  show ?case by (auto simp: rs trace_of_def intro: bump_run.step)
qed

text \<open>C1: the regions handed out by any sequence of calls of \<open>alloc\<close>, with a
  page source that grants fresh pages, are pairwise disjoint and in increasing
  order of address, and each lies between the \<open>next\<close> before the run and the
  \<open>next\<close> after it: no byte is handed out twice and no region wraps around.\<close>

theorem alloc_run_regions:
  assumes "16 < LENGTH('a::len)" and "ps_fresh J rp" and "J (upper_limit s) h"
    and "inner_inv s"
    and "alloc_run rp ls s h = Inr (rs, s' :: 'a usize inner_alloc, h')"
  shows "separated (regions (trace_of ls rs)) \<and> sorted (map fst (regions (trace_of ls rs))) \<and>
     list_all (\<lambda>(a, n). unat (next s) \<le> a \<and> a + n \<le> unat (next s')) (regions (trace_of ls rs))"
proof -
  from alloc_run_sim [OF assms(1,2,3,5)]
  have run: "bump_run (abs_state s) (trace_of ls rs) (abs_state s')" by simp
  from assms(4) have inv: "a_inv (abs_state s)" by simp
  from bump_run_packed [OF run inv] bump_run_within [OF run inv]
  show ?thesis by (auto dest: packed_separated packed_sorted)
qed

theorem alloc_run_regions_witness:
  "alloc_run request_pages_test [layout_new 65535 1, layout_new 2 2, layout_new 4 4]
     (new :: u32 inner_alloc) () =
     Inr ([Some 0, Some 65536, Some 65538], \<lparr>next = 65542, upper_limit = 131072\<rparr>, ()) \<and>
   separated [(0, 65535), (65536, 2), (65538, 4)]"
proof -
  let ?ls = "[layout_new 65535 1, layout_new 2 2, layout_new 4 4] :: u32 layout list"
  have run: "alloc_run request_pages_test ?ls (new :: u32 inner_alloc) () =
     Inr ([Some 0, Some 65536, Some 65538], \<lparr>next = 65542, upper_limit = 131072\<rparr>, ())"
    by (simp add: alloc_eval)
  have "regions (trace_of ?ls [Some 0, Some 65536, Some 65538]) = [(0, 65535), (65536, 2), (65538, 4)]"
    by (simp add: trace_of_def layout_defs layout_new_def)
  moreover have "separated (regions (trace_of ?ls [Some 0, Some 65536, Some 65538]))"
    using alloc_run_regions [OF _ ps_fresh_test _ inner_inv_new run] by simp
  ultimately show ?thesis using run by (simp only: simp_thms)
qed


lemma regions_trace_all2:
  "length rs = length ls \<Longrightarrow> list_all P (regions (trace_of ls rs)) \<Longrightarrow>
     list_all2 (\<lambda>l r. \<forall>a. r = Some a \<longrightarrow> P (unat a, unat (aligned_size l))) ls rs"
proof (induction ls arbitrary: rs)
  case Nil
  then show ?case by simp
next
  case (Cons l ls)
  from Cons.prems(1) obtain r rs' where rs: "rs = r # rs'" and len: "length rs' = length ls"
    by (cases rs) auto
  from Cons.prems(2) Cons.IH [OF len] show ?case
    by (cases r) (simp_all add: rs trace_of_def)
qed

lemma regions_trace_pos:
  "list_all (\<lambda>l. aligned_size l \<noteq> 0) ls \<Longrightarrow>
     list_all (\<lambda>(b, k). 0 < k) (regions (trace_of ls rs))"
proof (induction ls arbitrary: rs)
  case Nil
  show ?case by (simp add: trace_of_def)
next
  case (Cons l ls)
  from Cons.prems have l: "0 < unat (aligned_size l)" and rest: "list_all (\<lambda>l. aligned_size l \<noteq> 0) ls"
    by (simp_all add: unat_gt_0)
  show ?case
  proof (cases rs)
    case Nil
    then show ?thesis by (simp add: trace_of_def)
  next
    case (Cons r rs')
    with Cons.IH [OF rest, of rs'] l show ?thesis by (cases r) (simp_all add: trace_of_def)
  qed
qed

text \<open>C18: a run of calls of \<open>alloc\<close> is a run of the abstract bump
  allocator; it keeps \<open>next \<le> upper_limit\<close>, never moves \<open>next\<close> or
  \<open>upper_limit\<close> down, answers every request, and leaves the coupling with
  the host intact.\<close>

theorem alloc_run_refines:
  assumes "16 < LENGTH('a::len)" and "ps_fresh J rp" and "J (upper_limit s) h"
    and "inner_inv s"
    and "alloc_run rp ls s h = Inr (rs, s' :: 'a usize inner_alloc, h')"
  shows "bump_run (abs_state s) (trace_of ls rs) (abs_state s') \<and> length rs = length ls \<and>
     inner_inv s' \<and> next s \<le> next s' \<and> upper_limit s \<le> upper_limit s' \<and>
     J (upper_limit s') h'"
proof -
  from alloc_run_sim [OF assms(1,2,3,5)]
  have run: "bump_run (abs_state s) (trace_of ls rs) (abs_state s')"
    and rest: "length rs = length ls" "J (upper_limit s') h'" by simp_all
  from assms(4) have inv: "a_inv (abs_state s)" by simp
  from bump_run_inv [OF run inv] bump_run_mono [OF run inv] run rest
  show ?thesis by (simp add: word_le_nat_alt)
qed

theorem alloc_run_refines_witness:
  "alloc_run request_pages_test [layout_new 65535 1, layout_new 2 2]
     (new :: u32 inner_alloc) () =
     Inr ([Some 0, Some 65536], \<lparr>next = 65538, upper_limit = 131072\<rparr>, ()) \<and>
   bump_run \<lparr>a_next = 0, a_limit = 0\<rparr> [(65535, Some 0), (2, Some 65536)]
     \<lparr>a_next = 65538, a_limit = 131072\<rparr>"
proof -
  let ?ls = "[layout_new 65535 1, layout_new 2 2] :: u32 layout list"
  have run: "alloc_run request_pages_test ?ls (new :: u32 inner_alloc) () =
     Inr ([Some 0, Some 65536], \<lparr>next = 65538, upper_limit = 131072\<rparr>, ())"
    by (simp add: alloc_eval)
  have "trace_of ?ls [Some 0, Some 65536] = [(65535, Some 0), (2, Some 65536)]"
    by (simp add: trace_of_def layout_defs layout_new_def)
  moreover have "bump_run (abs_state (new :: u32 inner_alloc)) (trace_of ?ls [Some 0, Some 65536])
     (abs_state (\<lparr>next = 65538, upper_limit = 131072\<rparr> :: u32 inner_alloc))"
    using alloc_run_refines [OF _ ps_fresh_test _ inner_inv_new run] by simp
  ultimately show ?thesis using run by (simp add: abs_state_def new_def)
qed

text \<open>C22: with a page source that satisfies \<open>ps_fresh\<close>, from a state in
  which the invariant and the coupling with the host hold: when every request
  of a run has a padded size that is not zero, the start addresses handed out
  are strictly increasing, so no address is handed out twice.\<close>

theorem alloc_run_starts_strict:
  assumes "16 < LENGTH('a::len)" and "ps_fresh J rp" and "J (upper_limit s) h"
    and "inner_inv s"
    and "alloc_run rp ls s h = Inr (rs, s' :: 'a usize inner_alloc, h')"
    and "list_all (\<lambda>l. aligned_size l \<noteq> 0) ls"
  shows "sorted_wrt (<) (map fst (regions (trace_of ls rs)))"
proof -
  from alloc_run_sim [OF assms(1,2,3,5)]
  have run: "bump_run (abs_state s) (trace_of ls rs) (abs_state s')" by simp
  from assms(4) have inv: "a_inv (abs_state s)" by simp
  from bump_run_packed [OF run inv] regions_trace_pos [OF assms(6)]
  show ?thesis by (rule packed_strict)
qed

theorem alloc_run_starts_strict_witness:
  "alloc_run request_pages_test [layout_new 3 1, layout_new 2 2, layout_new 65536 1]
     (new :: u32 inner_alloc) () =
     Inr ([Some 0, Some 3, Some 65536], \<lparr>next = 131072, upper_limit = 131072\<rparr>, ()) \<and>
   sorted_wrt (<) [0, 3, 65536 :: nat]"
proof -
  let ?ls = "[layout_new 3 1, layout_new 2 2, layout_new 65536 1] :: u32 layout list"
  have run: "alloc_run request_pages_test ?ls (new :: u32 inner_alloc) () =
     Inr ([Some 0, Some 3, Some 65536], \<lparr>next = 131072, upper_limit = 131072\<rparr>, ())"
    by (simp add: alloc_eval)
  have "map fst (regions (trace_of ?ls [Some 0, Some 3, Some 65536])) = [0, 3, 65536]"
    by (simp add: trace_of_def layout_defs layout_new_def)
  moreover have "sorted_wrt (<) (map fst (regions (trace_of ?ls [Some 0, Some 3, Some 65536])))"
    using alloc_run_starts_strict [OF _ ps_fresh_test _ inner_inv_new run]
    by (simp add: layout_defs layout_new_def)
  ultimately show ?thesis using run by (simp only: simp_thms)
qed


section \<open>Unused memory\<close>

text \<open>C19: the allocator never holds a whole unused page: if the headroom
  is less than a page at the start of a run, as it is in the initial state, it
  is less than a page at the end, whatever the page source grants. Pages are
  requested only when they are needed, and only as many as are needed.\<close>

theorem alloc_run_headroom:
  assumes len: "16 < LENGTH('a::len)"
  shows "inner_inv s \<Longrightarrow> headroom s < 65536 \<Longrightarrow>
     alloc_run rp ls s h = Inr (rs, s' :: 'a usize inner_alloc, h') \<Longrightarrow>
     inner_inv s' \<and> headroom s' < 65536"
proof (induction ls arbitrary: s h rs)
  case Nil
  then show ?case by simp
next
  case (Cons l ls)
  from Cons.prems(3) obtain r rs' s1 h1 where one: "alloc rp l s h = Inr (r, s1, h1)"
    and rest: "alloc_run rp ls s1 h1 = Inr (rs', s', h')"
    unfolding alloc_run_Cons_Inr by blast
  from alloc_tight [OF len Cons.prems(1,2) one] have "inner_inv s1" "headroom s1 < 65536"
    by simp_all
  then show ?case using rest by (rule Cons.IH)
qed

theorem alloc_run_headroom_witness:
  "alloc_run request_pages_test [layout_new 65537 1, layout_new 131071 1] (new :: u32 inner_alloc) () =
     Inr ([Some 0, Some 131072], \<lparr>next = 262143, upper_limit = 262144\<rparr>, ()) \<and>
   headroom (\<lparr>next = 262143, upper_limit = 262144\<rparr> :: u32 inner_alloc) < 65536"
proof -
  have run: "alloc_run request_pages_test [layout_new 65537 1, layout_new 131071 1]
      (new :: u32 inner_alloc) () =
     Inr ([Some 0, Some 131072], \<lparr>next = 262143, upper_limit = 262144\<rparr>, ())"
    by (simp add: alloc_eval)
  from alloc_run_headroom [OF _ _ _ run] run show ?thesis by (simp add: headroom_def new_def)
qed

end
