(* ===== verification/Wasm_Alloc.thy ===== *)
theory Wasm_Alloc
  imports Bump_Spec
begin

text \<open>
  The allocator on its deployment target: \<open>alloc\<close> with the wasm32 variant of
  \<open>request_pages\<close> and the linear memory as the host. The coupling between
  the two is that \<open>upper_limit\<close> never exceeds the size of the memory; with
  the size the memory had at the start (\<open>wasm_grown\<close>) it gives that every
  region handed out lies inside the memory, and that every region of positive
  size handed out by a fresh allocator lies in pages the allocator itself
  obtained, above everything the module had before. The last sections show
  what happens at the top of the address space, and give the whole of
  \<open>alloc\<close> on wasm32 as a function of the state and the memory.
\<close>

definition wasm_grown :: "wasm_memory \<Rightarrow> 'a::len usize \<Rightarrow> wasm_memory \<Rightarrow> bool" where
  "wasm_grown m0 lim m \<longleftrightarrow>
     wasm_coupled lim m \<and> mem_pages m0 \<le> mem_pages m \<and> mem_max m = mem_max m0"

definition heap_started :: "wasm_memory \<Rightarrow> 'a::len usize inner_alloc \<Rightarrow> bool" where
  "heap_started m0 s \<longleftrightarrow> upper_limit s = 0 \<or> mem_pages m0 * 65536 \<le> unat (next s)"


section \<open>The grant of the wasm32 page source\<close>

lemma wasm_grown_wf: "wasm_grown m0 lim m \<Longrightarrow> wasm_wf m"
  by (simp add: wasm_grown_def wasm_coupled_def)

lemma request_pages_wasm32_Some:
  assumes "16 < LENGTH('a::len)" "wasm_wf m"
    and "request_pages_wasm32 s m n = Inr (Some (p :: 'a word), m')"
  shows "unat p = mem_pages m * 65536" "m' = m\<lparr>mem_pages := mem_pages m + unat n\<rparr>"
    "mem_pages m + unat n \<le> mem_max m"
  using assms(3) unat_page_base [OF assms(1,2)]
  by (auto simp: request_pages_wasm32_eq [OF assms(1,2)] split: if_splits)

lemma request_pages_wasm32_host:
  assumes "16 < LENGTH('a::len)" "wasm_wf m"
    and "request_pages_wasm32 s m (n :: 'a word) = Inr (r, m')"
  shows "mem_pages m \<le> mem_pages m'" "mem_max m' = mem_max m"
  using assms(3)
  by (auto simp: request_pages_wasm32_eq [OF assms(1,2)] split: if_splits)

lemma ps_fresh_wasm32_grown:
  assumes "16 < LENGTH('a::len)"
  shows "ps_fresh (wasm_grown m0 :: 'a word \<Rightarrow> _) request_pages_wasm32"
proof (rule ps_freshI)
  fix s :: "'a word inner_alloc" and m m' :: wasm_memory and n p lim :: "'a word" and r
  assume J: "wasm_grown m0 (upper_limit s) m"
  then have c: "wasm_coupled (upper_limit s) m" and wf: "wasm_wf m"
    by (simp_all add: wasm_grown_def wasm_coupled_def)
  note fresh = ps_fresh_wasm32 [OF assms]
  { assume run: "request_pages_wasm32 s m n = Inr (r, m')"
    from ps_fresh_host [OF fresh c run] request_pages_wasm32_host [OF assms wf run] J
    show "wasm_grown m0 (upper_limit s) m'" by (simp add: wasm_grown_def) }
  { assume run: "request_pages_wasm32 s m n = Inr (Some p, m')"
    from ps_fresh_above [OF fresh c run] show "unat (upper_limit s) \<le> unat p" . }
  { assume run: "request_pages_wasm32 s m n = Inr (Some p, m')"
      and lim: "unat lim = unat p + unat n * 65536"
    from ps_fresh_grown [OF fresh c run lim] request_pages_wasm32_host [OF assms wf run] J
    show "wasm_grown m0 lim m'" by (simp add: wasm_grown_def) }
qed


section \<open>Regions lie in memory the allocator obtained\<close>

lemma heap_started_new [simp]: "heap_started m0 new"
  by (simp add: heap_started_def new_def)

lemma alloc_wasm32_base:
  assumes len: "16 < LENGTH('a::len)"
    and wf: "wasm_wf m" and ge: "mem_pages m0 \<le> mem_pages m"
    and started: "heap_started m0 s"
    and run: "alloc request_pages_wasm32 l s m = Inr (r, s' :: 'a usize inner_alloc, m')"
  shows "heap_started m0 s'"
    and "r = Some a \<Longrightarrow> 0 < unat (aligned_size l) \<or> 0 < unat a \<Longrightarrow>
      mem_pages m0 * 65536 \<le> unat a"
proof -
  have "heap_started m0 s' \<and>
    (r = Some a \<longrightarrow> 0 < unat (aligned_size l) \<or> 0 < unat a \<longrightarrow>
       mem_pages m0 * 65536 \<le> unat a)"
    using len run
  proof (cases rule: alloc_Inr_cases)
    case (fits e)
    have e: "unat e = unat (next s) + unat (aligned_size l)"
      using fits(1) by (rule checked_add_unat)
    from fits(2) have "unat e \<le> unat (upper_limit s)" by (simp add: word_le_nat_alt)
    with e started fits show ?thesis by (auto simp: heap_started_def)
  next
    case (grow e p ps lim)
    from request_pages_wasm32_Some(1) [OF len wf grow(4)] ge
    have "mem_pages m0 * 65536 \<le> unat ps" by simp
    with grown_state_inv(1) [OF len grow(3,5)] grow show ?thesis
      by (auto simp: heap_started_def)
  next
    case fail
    with started show ?thesis by simp
  qed
  then show "heap_started m0 s'"
    and "r = Some a \<Longrightarrow> 0 < unat (aligned_size l) \<or> 0 < unat a \<Longrightarrow>
      mem_pages m0 * 65536 \<le> unat a"
    by simp_all
qed

lemma alloc_wasm32_above:
  assumes len: "16 < LENGTH('a::len)"
    and J: "wasm_grown m0 (upper_limit s) m"
    and started: "heap_started m0 s"
    and run: "alloc request_pages_wasm32 l s m = Inr (r, s' :: 'a usize inner_alloc, m')"
  shows "heap_started m0 s'"
    and "r = Some a \<Longrightarrow> 0 < unat (aligned_size l) \<or> 0 < unat a \<Longrightarrow>
      mem_pages m0 * 65536 \<le> unat a"
proof -
  from J have "wasm_wf m" "mem_pages m0 \<le> mem_pages m"
    by (simp_all add: wasm_grown_def wasm_coupled_def)
  from alloc_wasm32_base [OF len this started run]
  show "heap_started m0 s'"
    and "r = Some a \<Longrightarrow> 0 < unat (aligned_size l) \<or> 0 < unat a \<Longrightarrow>
      mem_pages m0 * 65536 \<le> unat a" .
qed

lemma alloc_run_wasm32_above:
  assumes len: "16 < LENGTH('a::len)"
  shows "wasm_grown m0 (upper_limit s) m \<Longrightarrow> heap_started m0 s \<Longrightarrow>
     alloc_run request_pages_wasm32 ls s m = Inr (rs, s' :: 'a usize inner_alloc, m') \<Longrightarrow>
     list_all (\<lambda>(a, n). 0 < n \<or> 0 < a \<longrightarrow> mem_pages m0 * 65536 \<le> a) (regions (trace_of ls rs))"
proof (induction ls arbitrary: s m rs)
  case Nil
  then show ?case by (simp add: trace_of_def)
next
  case (Cons l ls)
  from Cons.prems(3) obtain r rs' s1 m1
    where one: "alloc request_pages_wasm32 l s m = Inr (r, s1, m1)"
    and rest: "alloc_run request_pages_wasm32 ls s1 m1 = Inr (rs', s', m')" and rs: "rs = r # rs'"
    unfolding alloc_run_Cons_Inr by blast
  note J1 = alloc_coupling [OF len ps_fresh_wasm32_grown [OF len] Cons.prems(1) one]
  note above = alloc_wasm32_above [OF len Cons.prems(1,2) one]
  from Cons.IH [OF J1 above(1) rest] above(2)
  show ?case by (cases r) (simp_all add: rs trace_of_def)
qed

lemma alloc_run_wasm32_bounds:
  assumes "16 < LENGTH('a::len)" and "wasm_coupled (upper_limit s) m" and "inner_inv s"
    and "alloc_run request_pages_wasm32 ls s m = Inr (rs, s' :: 'a usize inner_alloc, m')"
  shows "list_all (\<lambda>(a, n). a + n \<le> mem_pages m' * 65536) (regions (trace_of ls rs))"
    and "wasm_grown m (upper_limit s') m'"
proof -
  from assms(2) have J: "wasm_grown m (upper_limit s) m" by (simp add: wasm_grown_def)
  from alloc_run_sim [OF assms(1) ps_fresh_wasm32_grown [OF assms(1)] J assms(4)]
  have run: "bump_run (abs_state s) (trace_of ls rs) (abs_state s')"
    and J': "wasm_grown m (upper_limit s') m'" by simp_all
  from assms(3) have inv: "a_inv (abs_state s)" by simp
  from bump_run_inv [OF run inv] J'
  have "unat (next s') \<le> mem_pages m' * 65536"
    by (simp add: wasm_grown_def wasm_coupled_def inner_inv_unat)
  with bump_run_within [OF run inv]
  show "list_all (\<lambda>(a, n). a + n \<le> mem_pages m' * 65536) (regions (trace_of ls rs))"
    by (auto simp: list_all_iff)
  show "wasm_grown m (upper_limit s') m'" by (rule J')
qed

lemma alloc_run_wasm32_total:
  assumes len: "16 < LENGTH('a::len)" and wf: "wasm_wf m"
    and run: "alloc_run request_pages_wasm32 ls new m = Inr (rs, s' :: 'a usize inner_alloc, m')"
  shows "mem_pages m * 65536 + sum_list (map snd (regions (trace_of ls rs))) \<le> mem_pages m' * 65536"
    and "mem_pages m' \<le> mem_max m" and "length rs = length ls"
proof -
  from wf have J: "wasm_grown m (upper_limit (new :: 'a usize inner_alloc)) m"
    by (simp add: wasm_grown_def wasm_coupled_def new_def)
  from alloc_run_sim [OF len ps_fresh_wasm32_grown [OF len] J run]
  have abs: "bump_run (abs_state (new :: 'a usize inner_alloc)) (trace_of ls rs) (abs_state s')"
    and J': "wasm_grown m (upper_limit s') m'" and "length rs = length ls" by simp_all
  then show "length rs = length ls" by simp
  from J' show "mem_pages m' \<le> mem_max m"
    by (simp add: wasm_grown_def wasm_coupled_def wasm_wf_def)
  from wf have c: "wasm_coupled (upper_limit (new :: 'a usize inner_alloc)) m"
    by (simp add: wasm_coupled_def new_def)
  from alloc_run_wasm32_above [OF len J heap_started_new run]
    alloc_run_wasm32_bounds(1) [OF len c inner_inv_new run]
  have "list_all (\<lambda>(a, n). (0 < n \<longrightarrow> mem_pages m * 65536 \<le> a) \<and> a + n \<le> mem_pages m' * 65536)
      (regions (trace_of ls rs))"
    by (auto simp: list_all_iff)
  moreover have "packed 0 (regions (trace_of ls rs))"
    using bump_run_packed [OF abs] by (simp add: new_def inner_inv_def)
  ultimately have "max 0 (mem_pages m * 65536) + sum_list (map snd (regions (trace_of ls rs)))
      \<le> mem_pages m' * 65536"
    using J' by (intro packed_total) (simp_all add: wasm_grown_def)
  then show "mem_pages m * 65536 + sum_list (map snd (regions (trace_of ls rs))) \<le> mem_pages m' * 65536"
    by simp
qed

text \<open>C15: on wasm32, every region handed out by a sequence of calls of
  \<open>alloc\<close> ends inside the linear memory as it is after the run, the memory
  never shrinks and never exceeds its maximum, and \<open>upper_limit\<close> stays
  within it.\<close>

theorem alloc_run_wasm32_in_memory:
  assumes "16 < LENGTH('a::len)" and "wasm_coupled (upper_limit s) m" and "inner_inv s"
    and "alloc_run request_pages_wasm32 ls s m = Inr (rs, s' :: 'a usize inner_alloc, m')"
  shows "list_all (\<lambda>(a, n). a + n \<le> mem_pages m' * 65536) (regions (trace_of ls rs)) \<and>
     wasm_coupled (upper_limit s') m' \<and> mem_pages m \<le> mem_pages m' \<and> mem_max m' = mem_max m"
  using alloc_run_wasm32_bounds [OF assms] by (simp add: wasm_grown_def)

theorem alloc_run_wasm32_in_memory_witness:
  "alloc_run request_pages_wasm32 [layout_new 65535 1, layout_new 2 2] (new :: u32 inner_alloc)
     \<lparr>mem_pages = 2, mem_max = 16\<rparr> =
     Inr ([Some 131072, Some 196608], \<lparr>next = 196610, upper_limit = 262144\<rparr>,
          \<lparr>mem_pages = 4, mem_max = 16\<rparr>) \<and>
   list_all (\<lambda>(a, n). a + n \<le> 4 * 65536) [(131072, 65535), (196608 :: nat, 2 :: nat)]"
proof -
  let ?ls = "[layout_new 65535 1, layout_new 2 2] :: u32 layout list"
  let ?m = "\<lparr>mem_pages = 2, mem_max = 16\<rparr>"
  have run: "alloc_run request_pages_wasm32 ?ls (new :: u32 inner_alloc) ?m =
     Inr ([Some 131072, Some 196608], \<lparr>next = 196610, upper_limit = 262144\<rparr>,
          \<lparr>mem_pages = 4, mem_max = 16\<rparr>)"
    by (simp add: alloc_eval)
  have "wasm_coupled (upper_limit (new :: u32 inner_alloc)) ?m"
    by (simp add: wasm_coupled_def wasm_wf_def new_def)
  from alloc_run_wasm32_in_memory [OF _ this inner_inv_new run]
  have "list_all (\<lambda>(a, n). a + n \<le> 4 * 65536)
      (regions (trace_of ?ls [Some 131072, Some 196608]))" by simp
  with run show ?thesis by (simp add: trace_of_def layout_defs layout_new_def)
qed

text \<open>C14: on wasm32, every region that a fresh allocator hands out, unless
  it is the empty region at address zero, starts at or above the size the
  linear memory had when the allocator was created: the allocator never hands
  out memory the module already used.\<close>

theorem alloc_run_wasm32_fresh:
  assumes "16 < LENGTH('a::len)" and "wasm_wf m"
    and "alloc_run request_pages_wasm32 ls new m = Inr (rs, s' :: 'a usize inner_alloc, m')"
  shows "list_all (\<lambda>(a, n). 0 < n \<or> 0 < a \<longrightarrow> mem_pages m * 65536 \<le> a)
     (regions (trace_of ls rs))"
proof -
  from assms(2) have "wasm_grown m (upper_limit (new :: 'a usize inner_alloc)) m"
    by (simp add: wasm_grown_def wasm_coupled_def new_def)
  from alloc_run_wasm32_above [OF assms(1) this heap_started_new assms(3)] show ?thesis .
qed

theorem alloc_run_wasm32_fresh_witness:
  "alloc_run request_pages_wasm32 [layout_new 0 1, layout_new 65535 1, layout_new 2 2]
     (new :: u32 inner_alloc) \<lparr>mem_pages = 2, mem_max = 16\<rparr> =
     Inr ([Some 0, Some 131072, Some 196608], \<lparr>next = 196610, upper_limit = 262144\<rparr>,
          \<lparr>mem_pages = 4, mem_max = 16\<rparr>) \<and>
   list_all (\<lambda>(a, n). n = 0 \<or> 2 * 65536 \<le> a) [(0, 0), (131072, 65535), (196608 :: nat, 2 :: nat)]"
proof -
  let ?ls = "[layout_new 0 1, layout_new 65535 1, layout_new 2 2] :: u32 layout list"
  let ?m = "\<lparr>mem_pages = 2, mem_max = 16\<rparr>"
  have run: "alloc_run request_pages_wasm32 ?ls (new :: u32 inner_alloc) ?m =
     Inr ([Some 0, Some 131072, Some 196608], \<lparr>next = 196610, upper_limit = 262144\<rparr>,
          \<lparr>mem_pages = 4, mem_max = 16\<rparr>)"
    by (simp add: alloc_eval)
  have "wasm_wf ?m" by (simp add: wasm_wf_def)
  from alloc_run_wasm32_fresh [OF _ this run]
  have "list_all (\<lambda>(a, n). 0 < n \<or> 0 < a \<longrightarrow> mem_pages ?m * 65536 \<le> a)
      (regions (trace_of ?ls [Some 0, Some 131072, Some 196608]))" by simp
  with run show ?thesis by (simp add: trace_of_def layout_defs layout_new_def)
qed


section \<open>The top of the address space\<close>

text \<open>C29: when the pages a request needs end exactly at the top of the
  address space, the memory is grown, but the new \<open>upper_limit\<close> is not
  representable and the call fails: the allocator state is unchanged and the
  pages obtained are never used.\<close>

theorem alloc_wasm32_top_page:
  assumes len: "16 < LENGTH('a::len)" and wf: "wasm_wf m"
    and short: "unat (upper_limit s) < unat (next s) + unat (aligned_size l)"
    and no_wrap: "unat (next s) + unat (aligned_size l) < 2 ^ LENGTH('a)"
    and pages: "required_pages (aligned_size l) = Some p"
    and grant: "mem_pages m + unat p \<le> mem_max m"
    and below: "mem_pages m * 65536 < 2 ^ LENGTH('a)"
    and top: "(mem_pages m + unat p) * 65536 = 2 ^ LENGTH('a)"
  shows "alloc request_pages_wasm32 l (s :: 'a usize inner_alloc) m =
     Inr (None, s, m\<lparr>mem_pages := mem_pages m + unat p\<rparr>)"
proof -
  let ?ps = "of_nat (mem_pages m) * PAGE_SIZE :: 'a word"
  from no_wrap have add: "checked_add (next s) (aligned_size l) = Some (next s + aligned_size l)"
    by (rule checked_add_SomeI)
  have lt: "upper_limit s < next s + aligned_size l"
    using short no_wrap by (simp add: word_less_nat_alt unat_add_no_overflow)
  have req: "request_pages_wasm32 s m p = Inr (Some ?ps, m\<lparr>mem_pages := mem_pages m + unat p\<rparr>)"
    using grant below by (simp add: request_pages_wasm32_eq [OF len wf])
  have "unat ?ps + unat (p * PAGE_SIZE) = 2 ^ LENGTH('a)"
    using top by (simp add: unat_page_base [OF len wf below] required_pages_mul(3) [OF len pages]
        add_mult_distrib)
  then have "checked_add ?ps (p * PAGE_SIZE) = None" by (simp add: checked_add_None_iff)
  then have "Option.bind (checked_mul p PAGE_SIZE) (checked_add ?ps) = None"
    by (simp add: required_pages_mul(1) [OF len pages])
  from alloc_limit_overflow [where rp = request_pages_wasm32, OF add lt pages req this]
  show ?thesis .
qed

theorem alloc_wasm32_top_page_witness:
  "alloc request_pages_wasm32 (layout_new 1 1)
     (\<lparr>next = 4294901760, upper_limit = 4294901760\<rparr> :: u32 inner_alloc)
     \<lparr>mem_pages = 65535, mem_max = 65536\<rparr> =
   Inr (None, \<lparr>next = 4294901760, upper_limit = 4294901760\<rparr>, \<lparr>mem_pages = 65536, mem_max = 65536\<rparr>)"
  using alloc_wasm32_top_page [where 'a = 32 and l = "layout_new 1 1" and p = 1
      and s = "\<lparr>next = 4294901760, upper_limit = 4294901760\<rparr>"
      and m = "\<lparr>mem_pages = 65535, mem_max = 65536\<rparr>"]
  by (simp add: wasm_wf_def required_pages_def layout_defs layout_new_def checked_defs PAGE_SIZE_def)


section \<open>The whole of \<open>alloc\<close> on wasm32\<close>

text \<open>C5: the allocator on wasm32, on every branch: a request is served
  from the headroom; fails without touching the memory when its end address
  or its page count is not representable or the memory cannot grow by the
  pages it needs; fails after growing the memory when the pages end beyond
  the address space; and is otherwise placed at the old end of the memory,
  with \<open>upper_limit\<close> at the new end. It never panics.\<close>

theorem alloc_wasm32:
  assumes "16 < LENGTH('a::len)" and "wasm_wf m"
  shows "alloc request_pages_wasm32 l (s :: 'a usize inner_alloc) m =
    (if unat (next s) + unat (aligned_size l) \<le> unat (upper_limit s)
     then Inr (Some (next s), s\<lparr>next := next s + aligned_size l\<rparr>, m)
     else if 2 ^ LENGTH('a) \<le> unat (next s) + unat (aligned_size l) then Inr (None, s, m)
     else (case required_pages (aligned_size l) of
             None \<Rightarrow> Inr (None, s, m)
           | Some p \<Rightarrow>
               if mem_max m < mem_pages m + unat p then Inr (None, s, m)
               else if 2 ^ LENGTH('a) \<le> (mem_pages m + unat p) * 65536
               then Inr (None, s, m\<lparr>mem_pages := mem_pages m + unat p\<rparr>)
               else Inr (Some (of_nat (mem_pages m) * PAGE_SIZE),
                 \<lparr>next = of_nat (mem_pages m) * PAGE_SIZE + aligned_size l,
                  upper_limit = of_nat (mem_pages m) * PAGE_SIZE + p * PAGE_SIZE\<rparr>,
                 m\<lparr>mem_pages := mem_pages m + unat p\<rparr>)))"
  using unat_page_base [OF assms]
  by (auto simp: alloc_nat_eq [OF assms(1)] request_pages_wasm32_eq [OF assms] add_mult_distrib
      split: option.split)

theorem alloc_wasm32_witness:
  "alloc request_pages_wasm32 (layout_new 65537 1) (new :: u32 inner_alloc) \<lparr>mem_pages = 2, mem_max = 16\<rparr> =
     Inr (Some 131072, \<lparr>next = 196609, upper_limit = 262144\<rparr>, \<lparr>mem_pages = 4, mem_max = 16\<rparr>) \<and>
   alloc request_pages_wasm32 (layout_new 65537 1) (new :: u32 inner_alloc) \<lparr>mem_pages = 15, mem_max = 16\<rparr> =
     Inr (None, new, \<lparr>mem_pages = 15, mem_max = 16\<rparr>)"
proof -
  have "alloc request_pages_wasm32 (layout_new 65537 1) (new :: u32 inner_alloc)
      \<lparr>mem_pages = 2, mem_max = 16\<rparr> =
     Inr (Some 131072, \<lparr>next = 196609, upper_limit = 262144\<rparr>, \<lparr>mem_pages = 4, mem_max = 16\<rparr>)"
    by (simp add: alloc_eval)
  with alloc_wasm32 [of "\<lparr>mem_pages = 15, mem_max = 16\<rparr>" "layout_new 65537 1" "new :: u32 inner_alloc"]
    alloc_wasm32 [of "\<lparr>mem_pages = 2, mem_max = 16\<rparr>" "layout_new 65537 1" "new :: u32 inner_alloc"]
  show ?thesis
    by (simp add: wasm_wf_def required_pages_def layout_defs layout_new_def checked_defs
        PAGE_SIZE_def new_def)
qed

end
