(* ===== verification/Shared_Memory.thy ===== *)
theory Shared_Memory
  imports Wasm_Alloc
begin

text \<open>
  The allocator in a memory it does not own alone. \<open>memory_grow\<close> refuses
  exactly when the maximum would be exceeded; a WebAssembly host may refuse
  at any time, and other code of the module may grow the memory between two
  calls of the allocator. Both are steps of an environment: \<open>shared_run\<close> is
  a sequence of calls of \<open>alloc\<close> between which the environment changes the
  host state as a relation \<open>R\<close> allows. For wasm32 the relation is
  \<open>wasm_rely\<close>: the memory stays well formed and does not shrink, while its
  maximum may move freely (lowered to the current size, it makes the next
  \<open>memory.grow\<close> fail). The theorems of \<open>Bump_Spec\<close> and \<open>Wasm_Alloc\<close> on
  runs are proved again of such runs, by rule induction.
\<close>

inductive shared_run ::
  "('h \<Rightarrow> 'h \<Rightarrow> bool) \<Rightarrow> ('a::len, 'h) page_source \<Rightarrow> 'a usize inner_alloc \<Rightarrow> 'h \<Rightarrow>
     ('a usize layout \<times> 'a usize option) list \<Rightarrow> 'a usize inner_alloc \<Rightarrow> 'h \<Rightarrow> bool"
  for R rp where
  idle: "shared_run R rp s h [] s h"
| env: "R h h1 \<Longrightarrow> shared_run R rp s h1 tr s' h' \<Longrightarrow> shared_run R rp s h tr s' h'"
| call: "alloc rp l s h = Inr (r, s1, h1) \<Longrightarrow> shared_run R rp s1 h1 tr s' h' \<Longrightarrow>
     shared_run R rp s h ((l, r) # tr) s' h'"

definition calls_trace :: "('a::len usize layout \<times> 'a usize option) list \<Rightarrow> (nat \<times> nat option) list" where
  "calls_trace tr = map (\<lambda>(l, r). (unat (aligned_size l), map_option unat r)) tr"

definition rely_keeps :: "('h \<Rightarrow> 'h \<Rightarrow> bool) \<Rightarrow> ('a \<Rightarrow> 'h \<Rightarrow> bool) \<Rightarrow> bool" where
  "rely_keeps R J \<longleftrightarrow> (\<forall>lim h h'. J lim h \<longrightarrow> R h h' \<longrightarrow> J lim h')"

definition wasm_rely :: "wasm_memory \<Rightarrow> wasm_memory \<Rightarrow> bool" where
  "wasm_rely m m' \<longleftrightarrow> wasm_wf m' \<and> mem_pages m \<le> mem_pages m'"

definition wasm_shared :: "wasm_memory \<Rightarrow> 'a::len usize \<Rightarrow> wasm_memory \<Rightarrow> bool" where
  "wasm_shared m0 lim m \<longleftrightarrow> wasm_coupled lim m \<and> mem_pages m0 \<le> mem_pages m"


section \<open>Runs with an environment\<close>

lemma calls_trace_simps [simp]:
  "calls_trace [] = []"
  "calls_trace ((l, r) # tr) = (unat (aligned_size l), map_option unat r) # calls_trace tr"
  by (simp_all add: calls_trace_def)

lemma calls_trace_zip: "calls_trace (zip ls rs) = trace_of ls rs"
  by (simp add: calls_trace_def trace_of_def zip_map_map)

lemma rely_keepsD: "rely_keeps R J \<Longrightarrow> J lim h \<Longrightarrow> R h h' \<Longrightarrow> J lim h'"
  unfolding rely_keeps_def by blast

lemma shared_run_sim:
  assumes len: "16 < LENGTH('a::len)" and fresh: "ps_fresh J rp" and keeps: "rely_keeps R J"
    and run: "shared_run R rp s h tr (s' :: 'a usize inner_alloc) h'"
  shows "J (upper_limit s) h \<Longrightarrow>
     bump_run (abs_state s) (calls_trace tr) (abs_state s') \<and> J (upper_limit s') h'"
  using run
proof (induction rule: shared_run.induct)
  case (idle s h)
  then show ?case by (auto intro: bump_run.idle)
next
  case (env h h1 s tr s' h')
  from rely_keepsD [OF keeps env.prems env.hyps(1)] show ?case by (rule env.IH)
next
  case (call l s h r s1 h1 tr s' h')
  note J1 = alloc_coupling [OF len fresh call.prems call.hyps(1)]
  from call.IH [OF J1] alloc_abs_step [OF len fresh call.prems call.hyps(1)]
  show ?case by (auto intro: bump_run.step)
qed

lemma alloc_run_shared:
  "alloc_run rp ls s h = Inr (rs, s', h') \<Longrightarrow> shared_run R rp s h (zip ls rs) s' h'"
proof (induction ls arbitrary: s h rs)
  case Nil
  then show ?case by (auto intro: shared_run.idle)
next
  case (Cons l ls)
  from Cons.prems obtain r rs' s1 h1 where one: "alloc rp l s h = Inr (r, s1, h1)"
    and rest: "alloc_run rp ls s1 h1 = Inr (rs', s', h')" and rs: "rs = r # rs'"
    unfolding alloc_run_Cons_Inr by blast
  from shared_run.call [OF one Cons.IH [OF rest]] show ?case by (simp add: rs)
qed



section \<open>The linear memory shared with the module and refused by the host\<close>

lemma wasm_rely_keeps: "rely_keeps wasm_rely (wasm_shared m0)"
  by (auto simp: rely_keeps_def wasm_rely_def wasm_shared_def wasm_coupled_def
      intro: order_trans [OF _ mult_le_mono1])

lemma ps_fresh_wasm32_shared:
  assumes "16 < LENGTH('a::len)"
  shows "ps_fresh (wasm_shared m0 :: 'a word \<Rightarrow> _) request_pages_wasm32"
proof (rule ps_freshI)
  fix s :: "'a word inner_alloc" and m m' :: wasm_memory and n p lim :: "'a word" and r
  assume J: "wasm_shared m0 (upper_limit s) m"
  then have c: "wasm_coupled (upper_limit s) m" and wf: "wasm_wf m"
    by (simp_all add: wasm_shared_def wasm_coupled_def)
  note fresh = ps_fresh_wasm32 [OF assms]
  { assume run: "request_pages_wasm32 s m n = Inr (r, m')"
    from ps_fresh_host [OF fresh c run] request_pages_wasm32_host(1) [OF assms wf run] J
    show "wasm_shared m0 (upper_limit s) m'" by (simp add: wasm_shared_def) }
  { assume run: "request_pages_wasm32 s m n = Inr (Some p, m')"
    from ps_fresh_above [OF fresh c run] show "unat (upper_limit s) \<le> unat p" . }
  { assume run: "request_pages_wasm32 s m n = Inr (Some p, m')"
      and lim: "unat lim = unat p + unat n * 65536"
    from ps_fresh_grown [OF fresh c run lim] request_pages_wasm32_host(1) [OF assms wf run] J
    show "wasm_shared m0 lim m'" by (simp add: wasm_shared_def) }
qed

lemma shared_run_wasm32_above:
  assumes len: "16 < LENGTH('a::len)"
    and run: "shared_run wasm_rely request_pages_wasm32 s m tr (s' :: 'a usize inner_alloc) m'"
  shows "wasm_shared m0 (upper_limit s) m \<Longrightarrow> heap_started m0 s \<Longrightarrow>
     list_all (\<lambda>(a, n). 0 < n \<or> 0 < a \<longrightarrow> mem_pages m0 * 65536 \<le> a)
       (regions (calls_trace tr))"
  using run
proof (induction rule: shared_run.induct)
  case (idle s m)
  show ?case by simp
next
  case (env m m1 s tr s' m')
  from rely_keepsD [OF wasm_rely_keeps env.prems(1) env.hyps(1)] env.prems(2)
  show ?case by (rule env.IH)
next
  case (call l s m r s1 m1 tr s' m')
  from call.prems(1) have wf: "wasm_wf m" and ge: "mem_pages m0 \<le> mem_pages m"
    by (simp_all add: wasm_shared_def wasm_coupled_def)
  note J1 = alloc_coupling [OF len ps_fresh_wasm32_shared [OF len] call.prems(1) call.hyps(1)]
  note above = alloc_wasm32_base [OF len wf ge call.prems(2) call.hyps(1)]
  from call.IH [OF J1 above(1)] above(2) show ?case by (cases r) simp_all
qed

text \<open>C16: on wasm32, in any sequence of calls of \<open>alloc\<close> on a fresh
  allocator between which the environment changes the linear memory (the host
  lowers or raises the maximum, other code grows the memory), the regions
  handed out are pairwise disjoint and in increasing order of address, every
  region other than the empty one at address zero starts at or above the size
  the memory had at the start, and every region ends inside the memory as it
  is at the end.\<close>

theorem shared_run_wasm32_regions:
  assumes len: "16 < LENGTH('a::len)" and wf: "wasm_wf m"
    and run: "shared_run wasm_rely request_pages_wasm32 new m tr (s' :: 'a usize inner_alloc) m'"
  shows "separated (regions (calls_trace tr)) \<and> sorted (map fst (regions (calls_trace tr))) \<and>
     list_all (\<lambda>(a, n). (0 < n \<or> 0 < a \<longrightarrow> mem_pages m * 65536 \<le> a) \<and>
                        a + n \<le> mem_pages m' * 65536) (regions (calls_trace tr)) \<and>
     wasm_wf m' \<and> mem_pages m \<le> mem_pages m'"
proof -
  from wf have J: "wasm_shared m (upper_limit (new :: 'a usize inner_alloc)) m"
    by (simp add: wasm_shared_def wasm_coupled_def)
  from shared_run_sim [OF len ps_fresh_wasm32_shared [OF len] wasm_rely_keeps run J]
  have abs: "bump_run (abs_state (new :: 'a usize inner_alloc)) (calls_trace tr) (abs_state s')"
    and J': "wasm_shared m (upper_limit s') m'" by simp_all
  have inv: "a_inv (abs_state (new :: 'a usize inner_alloc))" by simp
  from bump_run_inv [OF abs inv] J'
  have "unat (next s') \<le> mem_pages m' * 65536"
    by (simp add: wasm_shared_def wasm_coupled_def inner_inv_unat)
  with bump_run_within [OF abs inv]
  have "list_all (\<lambda>(a, n). a + n \<le> mem_pages m' * 65536) (regions (calls_trace tr))"
    by (auto simp: list_all_iff)
  with shared_run_wasm32_above [OF len run J heap_started_new]
  have "list_all (\<lambda>(a, n). (0 < n \<or> 0 < a \<longrightarrow> mem_pages m * 65536 \<le> a) \<and>
      a + n \<le> mem_pages m' * 65536) (regions (calls_trace tr))"
    by (auto simp: list_all_iff)
  with bump_run_packed [OF abs inv] J' show ?thesis
    by (auto simp: wasm_shared_def wasm_coupled_def dest: packed_separated packed_sorted)
qed

theorem shared_run_wasm32_regions_witness:
  "shared_run wasm_rely request_pages_wasm32 (new :: u32 inner_alloc) \<lparr>mem_pages = 2, mem_max = 16\<rparr>
     [(layout_new 8 8, Some 131072), (layout_new 65536 1, Some 327680), (layout_new 65536 1, None)]
     \<lparr>next = 393216, upper_limit = 393216\<rparr> \<lparr>mem_pages = 6, mem_max = 6\<rparr> \<and>
   separated [(131072, 8), (327680, 65536 :: nat)] \<and>
   list_all (\<lambda>(a, n). 2 * 65536 \<le> a \<and> a + n \<le> 6 * 65536) [(131072, 8), (327680, 65536 :: nat)]"
proof -
  let ?s1 = "\<lparr>next = 131080, upper_limit = 196608\<rparr> :: u32 inner_alloc"
  let ?s2 = "\<lparr>next = 393216, upper_limit = 393216\<rparr> :: u32 inner_alloc"
  have c1: "alloc request_pages_wasm32 (layout_new 8 8) (new :: u32 inner_alloc)
      \<lparr>mem_pages = 2, mem_max = 16\<rparr> = Inr (Some 131072, ?s1, \<lparr>mem_pages = 3, mem_max = 16\<rparr>)"
    by (simp add: alloc_eval)
  have e1: "wasm_rely \<lparr>mem_pages = 3, mem_max = 16\<rparr> \<lparr>mem_pages = 5, mem_max = 16\<rparr>"
    by (simp add: wasm_rely_def wasm_wf_def)
  have c2: "alloc request_pages_wasm32 (layout_new 65536 1) ?s1 \<lparr>mem_pages = 5, mem_max = 16\<rparr> =
      Inr (Some 327680, ?s2, \<lparr>mem_pages = 6, mem_max = 16\<rparr>)"
    by (simp add: alloc_eval)
  have e2: "wasm_rely \<lparr>mem_pages = 6, mem_max = 16\<rparr> \<lparr>mem_pages = 6, mem_max = 6\<rparr>"
    by (simp add: wasm_rely_def wasm_wf_def)
  have c3: "alloc request_pages_wasm32 (layout_new 65536 1) ?s2 \<lparr>mem_pages = 6, mem_max = 6\<rparr> =
      Inr (None, ?s2, \<lparr>mem_pages = 6, mem_max = 6\<rparr>)"
    by (simp add: alloc_eval)
  note r3 = shared_run.call [where R = wasm_rely, OF c3 shared_run.idle]
  note r2 = shared_run.call [OF c2 shared_run.env [where R = wasm_rely, OF e2 r3]]
  note run = shared_run.call [OF c1 shared_run.env [where R = wasm_rely, OF e1 r2]]
  have "wasm_wf \<lparr>mem_pages = 2, mem_max = 16\<rparr>" by (simp add: wasm_wf_def)
  from shared_run_wasm32_regions [OF _ this run] run show ?thesis
    by (simp add: layout_defs layout_new_def)
qed

end
