(* ===== verification/Bump_Align.thy ===== *)
theory Bump_Align
  imports Wasm_Alloc
begin

text \<open>
  Alignment of the addresses handed out. \<open>alloc\<close> pads the size of a request
  to its alignment and places it at \<open>next\<close>, or at the base of fresh pages;
  it never rounds an address. Start addresses are therefore aligned exactly as
  far as \<open>next\<close> is: this theory proves that a common multiple \<open>A\<close> of the
  alignments that divides every padded size and the page size is kept as a
  divisor of \<open>next\<close>, so that runs of requests of one alignment are served
  aligned, with a page source that grants page-aligned bases
  (\<open>ps_page_aligned\<close>). With such a page source \<open>upper_limit\<close> stays a
  multiple of the page size. The last section shows that the condition on
  the padded sizes is needed: from the initial state, a request of one byte
  followed by a request of any alignment above one returns an address that
  misses the alignment.
\<close>

definition ps_page_aligned ::
  "('a usize \<Rightarrow> 'h \<Rightarrow> bool) \<Rightarrow> ('a::len, 'h) page_source \<Rightarrow> bool" where
  "ps_page_aligned J rp \<longleftrightarrow>
     (\<forall>s h n p h'. J (upper_limit s) h \<longrightarrow> rp s h n = Inr (Some p, h') \<longrightarrow> 65536 dvd unat p)"

definition page_limit :: "'a::len usize \<Rightarrow> 'h \<Rightarrow> bool" where
  "page_limit lim h \<longleftrightarrow> 65536 dvd unat lim"


section \<open>Page sources that grant page-aligned bases\<close>

lemma ps_page_alignedD:
  "ps_page_aligned J rp \<Longrightarrow> J (upper_limit s) h \<Longrightarrow> rp s h n = Inr (Some p, h') \<Longrightarrow>
     65536 dvd unat p"
  unfolding ps_page_aligned_def by blast

lemma ps_fresh_page_limit:
  assumes "ps_fresh J (rp :: ('a::len, 'h) page_source)" "ps_page_aligned J rp"
  shows "ps_fresh (\<lambda>lim h. J lim h \<and> 65536 dvd unat lim) rp"
proof (rule ps_freshI)
  fix s :: "'a word inner_alloc" and h h' :: 'h and n p lim :: "'a word" and r
  assume J: "J (upper_limit s) h \<and> 65536 dvd unat (upper_limit s)"
  { assume "rp s h n = Inr (r, h')"
    with J assms(1) show "J (upper_limit s) h' \<and> 65536 dvd unat (upper_limit s)"
      by (auto dest: ps_fresh_host) }
  { assume "rp s h n = Inr (Some p, h')"
    with J assms(1) show "unat (upper_limit s) \<le> unat p" by (auto dest: ps_fresh_above) }
  { assume run: "rp s h n = Inr (Some p, h')" and lim: "unat lim = unat p + unat n * 65536"
    from J assms(2) run have "65536 dvd unat p" by (auto dest: ps_page_alignedD)
    with J assms(1) run lim show "J lim h' \<and> 65536 dvd unat lim"
      by (auto dest: ps_fresh_grown) }
qed

lemma ps_fresh_test_pages: "ps_fresh page_limit request_pages_test"
  by (rule ps_freshI) (auto simp: request_pages_test_def page_limit_def)

lemma ps_page_aligned_test: "ps_page_aligned page_limit request_pages_test"
  by (auto simp: ps_page_aligned_def request_pages_test_def page_limit_def)

lemma ps_page_aligned_wasm32:
  "16 < LENGTH('a::len) \<Longrightarrow>
     ps_page_aligned (wasm_coupled :: 'a word \<Rightarrow> _) request_pages_wasm32"
  unfolding ps_page_aligned_def
  by (auto simp: wasm_coupled_def dest: request_pages_wasm32_Some(1))


section \<open>Alignment is kept\<close>

lemma start_aligned_iff [simp]:
  "start_aligned l None" "start_aligned l (Some p) \<longleftrightarrow> unat (l_align l) dvd unat p"
  by (simp_all add: start_aligned_def dvd_eq_mod_eq_0)

lemma alloc_keeps_aligned:
  assumes len: "16 < LENGTH('a::len)" and fresh: "ps_page_aligned J rp"
    and J: "J (upper_limit s) h"
    and A: "A dvd 65536" "A dvd unat (next s)"
    and l: "unat (l_align l) dvd A" "A dvd unat (aligned_size l)"
    and run: "alloc rp l s h = Inr (r, s' :: 'a usize inner_alloc, h')"
  shows "start_aligned l r \<and> A dvd unat (next s')"
  using len run
proof (cases rule: alloc_Inr_cases)
  case (fits e)
  have "unat e = unat (next s) + unat (aligned_size l)"
    using fits(1) by (rule checked_add_unat)
  with A l fits show ?thesis by (auto intro: dvd_trans)
next
  case (grow e p ps lim)
  from ps_page_alignedD [OF fresh J grow(4)] A(1) have ps: "A dvd unat ps"
    by (rule dvd_trans [rotated])
  with grown_state_inv(1) [OF len grow(3,5)] l grow show ?thesis
    by (auto intro: dvd_trans)
next
  case fail
  with A show ?thesis by simp
qed

text \<open>C17: with a page source that satisfies \<open>ps_fresh\<close> and grants
  page-aligned bases under its coupling with the host, from a state in which
  the coupling holds: if a number \<open>A\<close> that divides the page size is a
  multiple of the alignment of every request of a run and divides every
  padded size, and \<open>next\<close> is a multiple of \<open>A\<close> at the start, then every
  address handed out
  meets the alignment of its request, and \<open>next\<close> is a multiple of \<open>A\<close> at
  the end. Requests of one alignment are the case where \<open>A\<close> is that
  alignment.\<close>

theorem alloc_run_aligned:
  assumes len: "16 < LENGTH('a::len)" and fresh: "ps_fresh J rp"
    and pages: "ps_page_aligned J rp" and A: "A dvd 65536"
  shows "J (upper_limit s) h \<Longrightarrow> A dvd unat (next s) \<Longrightarrow>
     list_all (\<lambda>l. unat (l_align l) dvd A \<and> A dvd unat (aligned_size l)) ls \<Longrightarrow>
     alloc_run rp ls s h = Inr (rs, s' :: 'a usize inner_alloc, h') \<Longrightarrow>
     list_all2 start_aligned ls rs \<and> A dvd unat (next s')"
proof (induction ls arbitrary: s h rs)
  case Nil
  then show ?case by simp
next
  case (Cons l ls)
  from Cons.prems(4) obtain r rs' s1 h1 where one: "alloc rp l s h = Inr (r, s1, h1)"
    and rest: "alloc_run rp ls s1 h1 = Inr (rs', s', h')" and rs: "rs = r # rs'"
    unfolding alloc_run_Cons_Inr by blast
  from Cons.prems(3) have l: "unat (l_align l) dvd A" "A dvd unat (aligned_size l)"
    and ls: "list_all (\<lambda>l. unat (l_align l) dvd A \<and> A dvd unat (aligned_size l)) ls"
    by simp_all
  note J1 = alloc_coupling [OF len fresh Cons.prems(1) one]
  from alloc_keeps_aligned [OF len pages Cons.prems(1) A Cons.prems(2) l one]
  have al: "start_aligned l r" and A1: "A dvd unat (next s1)" by simp_all
  from Cons.IH [OF J1 A1 ls rest] al show ?case by (simp add: rs)
qed

theorem alloc_run_aligned_witness:
  "alloc_run request_pages_test [layout_new 8 8, layout_new 65536 8, layout_new 16 8]
     (new :: u32 inner_alloc) () =
     Inr ([Some 0, Some 65536, Some 131072], \<lparr>next = 131088, upper_limit = 196608\<rparr>, ()) \<and>
   list_all2 start_aligned [layout_new 8 8, layout_new 65536 8, layout_new 16 8 :: u32 layout]
     [Some 0, Some 65536, Some 131072] \<and>
   alloc_run request_pages_wasm32 [layout_new 8 8, layout_new 65536 8]
     (new :: u32 inner_alloc) \<lparr>mem_pages = 1, mem_max = 4\<rparr> =
     Inr ([Some 65536, Some 131072], \<lparr>next = 196608, upper_limit = 196608\<rparr>,
          \<lparr>mem_pages = 3, mem_max = 4\<rparr>) \<and>
   list_all2 start_aligned [layout_new 8 8, layout_new 65536 8 :: u32 layout]
     [Some 65536, Some 131072]"
proof -
  let ?ls = "[layout_new 8 8, layout_new 65536 8, layout_new 16 8] :: u32 layout list"
  let ?ws = "[layout_new 8 8, layout_new 65536 8] :: u32 layout list"
  have run: "alloc_run request_pages_test ?ls (new :: u32 inner_alloc) () =
     Inr ([Some 0, Some 65536, Some 131072], \<lparr>next = 131088, upper_limit = 196608\<rparr>, ())"
    by (simp add: alloc_eval)
  have wrun: "alloc_run request_pages_wasm32 ?ws (new :: u32 inner_alloc) \<lparr>mem_pages = 1, mem_max = 4\<rparr> =
     Inr ([Some 65536, Some 131072], \<lparr>next = 196608, upper_limit = 196608\<rparr>,
          \<lparr>mem_pages = 3, mem_max = 4\<rparr>)"
    by (simp add: alloc_eval)
  have "list_all2 start_aligned ?ls [Some 0, Some 65536, Some 131072] \<and>
      (8::nat) dvd unat (next (\<lparr>next = 131088, upper_limit = 196608\<rparr> :: u32 inner_alloc))"
    by (rule alloc_run_aligned [OF _ ps_fresh_test_pages ps_page_aligned_test _ _ _ _ run])
      (simp_all add: page_limit_def new_def layout_defs layout_new_def)
  moreover
  have "list_all2 start_aligned ?ws [Some 65536, Some 131072] \<and>
      (8::nat) dvd unat (next (\<lparr>next = 196608, upper_limit = 196608\<rparr> :: u32 inner_alloc))"
    by (rule alloc_run_aligned [OF _ ps_fresh_wasm32 ps_page_aligned_wasm32 _ _ _ _ wrun])
      (simp_all add: wasm_coupled_def wasm_wf_def new_def layout_defs layout_new_def)
  ultimately show ?thesis using run wrun by (simp only: simp_thms)
qed


section \<open>The limit moves by whole pages\<close>

text \<open>C20: with a page source that grants page-aligned bases, and an
  \<open>upper_limit\<close> that is a multiple of the page size at the start,
  \<open>upper_limit\<close> only grows over a run, and by a whole number of pages.\<close>

theorem alloc_run_whole_pages:
  assumes "16 < LENGTH('a::len)" and "ps_fresh J rp" and "ps_page_aligned J rp"
    and "J (upper_limit s) h" and "inner_inv s" and "65536 dvd unat (upper_limit s)"
    and "alloc_run rp ls s h = Inr (rs, s' :: 'a usize inner_alloc, h')"
  shows "upper_limit s \<le> upper_limit s' \<and>
     65536 dvd unat (upper_limit s') - unat (upper_limit s)"
proof -
  from assms(4,6) have J: "J (upper_limit s) h \<and> 65536 dvd unat (upper_limit s)" by simp
  from alloc_run_sim [OF assms(1) ps_fresh_page_limit [OF assms(2,3)] J assms(7)]
  have run: "bump_run (abs_state s) (trace_of ls rs) (abs_state s')"
    and pages: "65536 dvd unat (upper_limit s')" by simp_all
  from assms(5) have "a_inv (abs_state s)" by simp
  from bump_run_mono [OF run this] pages assms(6) show ?thesis
    by (simp add: word_le_nat_alt dvd_diff_nat)
qed

theorem alloc_run_whole_pages_witness:
  "alloc_run request_pages_test [layout_new 1 1, layout_new 131073 1] (new :: u32 inner_alloc) () =
     Inr ([Some 0, Some 65536], \<lparr>next = 196609, upper_limit = 262144\<rparr>, ()) \<and>
   (65536 :: nat) dvd 262144 - 0"
proof -
  let ?ls = "[layout_new 1 1, layout_new 131073 1] :: u32 layout list"
  have run: "alloc_run request_pages_test ?ls (new :: u32 inner_alloc) () =
     Inr ([Some 0, Some 65536], \<lparr>next = 196609, upper_limit = 262144\<rparr>, ())"
    by (simp add: alloc_eval)
  have "upper_limit (new :: u32 inner_alloc) \<le> upper_limit (\<lparr>next = 196609, upper_limit = 262144\<rparr> :: u32 inner_alloc) \<and>
      65536 dvd unat (upper_limit (\<lparr>next = 196609, upper_limit = 262144\<rparr> :: u32 inner_alloc)) -
        unat (upper_limit (new :: u32 inner_alloc))"
    by (rule alloc_run_whole_pages [OF _ ps_fresh_test_pages ps_page_aligned_test _ _ _ run])
      (simp_all add: page_limit_def new_def inner_inv_def)
  with run show ?thesis by (simp add: new_def)
qed


section \<open>Addresses that miss their alignment\<close>

lemma aligned_size_byte [simp]: "aligned_size (layout_new 1 1 :: 'a::len usize layout) = 1"
  by (simp add: layout_defs layout_new_def)

lemma required_pages_byte:
  assumes "16 < LENGTH('a::len)"
  shows "required_pages (1 :: 'a word) = Some 1"
proof -
  have "(1::nat) + 65535 < 2 ^ LENGTH('a)" using len_gt_16_pow [OF assms] by simp
  moreover have "(PAGE_SIZE :: 'a word) div PAGE_SIZE = 1"
    by (rule word_eq_unatI) (simp add: unat_div unat_PAGE_SIZE [OF assms])
  ultimately show ?thesis by (simp add: required_pages_Some_iff [OF assms])
qed

lemma alloc_first_byte:
  assumes len: "16 < LENGTH('a::len)"
    and grant: "rp new h 1 = Inr (Some (p :: 'a word), h')"
    and room: "unat p + 65536 < 2 ^ LENGTH('a)"
  shows "alloc rp (layout_new 1 1) new h =
     Inr (Some p, \<lparr>next = p + 1, upper_limit = p + PAGE_SIZE\<rparr>, h')"
  using grant room
  by (simp add: alloc_nat_eq [OF len] required_pages_byte [OF len] new_def)

text \<open>C35: \<open>alloc\<close> places a request at \<open>next\<close> without rounding it up to
  the alignment of the request. After a first request of one byte, served at
  a page-aligned base \<open>p\<close>, every request with an alignment other than one
  (alignments are powers of two) whose padded size is less than a page is
  placed at \<open>p + 1\<close>, which is not a multiple of its alignment. The state
  is reached from the initial one with any page source, the one of wasm32
  included.\<close>

theorem alloc_run_misaligned:
  assumes len: "16 < LENGTH('a::len)"
    and grant: "rp new h 1 = Inr (Some (p :: 'a word), h')"
    and page: "65536 dvd unat p" and room: "unat p + 65536 < 2 ^ LENGTH('a)"
    and al: "is_power_of_two (l_align l)" "l_align l \<noteq> 1"
    and fits: "unat (aligned_size l) < 65536"
  shows "alloc_run rp [layout_new 1 1, l] new h =
           Inr ([Some p, Some (p + 1)],
                \<lparr>next = p + 1 + aligned_size l, upper_limit = p + PAGE_SIZE\<rparr>, h')
       \<and> \<not> start_aligned l (Some (p + 1))"
proof -
  let ?s = "\<lparr>next = p + 1, upper_limit = p + PAGE_SIZE\<rparr> :: 'a usize inner_alloc"
  have lt: "(65536::nat) < 2 ^ LENGTH('a)" by (rule len_gt_16_pow [OF len])
  have one: "unat (p + 1) = unat p + 1"
    using room by (simp add: unat_add_no_overflow)
  have lim: "unat (p + PAGE_SIZE) = unat p + 65536"
    using room by (simp add: unat_add_no_overflow unat_PAGE_SIZE [OF len])
  from fits one lim have "unat (next ?s) + unat (aligned_size l) \<le> unat (upper_limit ?s)"
    by simp
  then have "alloc rp l ?s h' = Inr (Some (p + 1), ?s\<lparr>next := p + 1 + aligned_size l\<rparr>, h')"
    using alloc_fits_unat [of ?s l rp h'] by simp
  with alloc_first_byte [where rp = rp and h = h, OF len grant room]
  have run: "alloc_run rp [layout_new 1 1, l] new h =
      Inr ([Some p, Some (p + 1)],
           \<lparr>next = p + 1 + aligned_size l, upper_limit = p + PAGE_SIZE\<rparr>, h')"
    by simp
  from al(1) obtain k where k: "l_align l = 2 ^ k" "unat (l_align l) = 2 ^ k"
    by (rule is_power_of_twoE)
  with al(2) have "even (unat (l_align l))" by (cases k) simp_all
  moreover from page have "odd (unat p + 1)" by auto
  ultimately have "\<not> unat (l_align l) dvd unat p + 1" by (blast dest: dvd_trans)
  with run one show ?thesis by simp
qed

theorem alloc_run_misaligned_witness:
  "alloc_run request_pages_test [layout_new 1 1, layout_new 8 8] (new :: u32 inner_alloc) () =
     Inr ([Some 0, Some 1], \<lparr>next = 9, upper_limit = 65536\<rparr>, ()) \<and>
   \<not> start_aligned (layout_new 8 8 :: u32 layout) (Some 1) \<and>
   alloc_run request_pages_wasm32 [layout_new 1 1, layout_new 8 8] (new :: u32 inner_alloc)
     \<lparr>mem_pages = 2, mem_max = 16\<rparr> =
     Inr ([Some 131072, Some 131073], \<lparr>next = 131081, upper_limit = 196608\<rparr>,
          \<lparr>mem_pages = 3, mem_max = 16\<rparr>) \<and>
   \<not> start_aligned (layout_new 8 8 :: u32 layout) (Some 131073)"
proof -
  let ?l = "layout_new 8 8 :: u32 layout"
  let ?m = "\<lparr>mem_pages = 2, mem_max = 16\<rparr>"
  have pad: "aligned_size ?l = 8" "l_align ?l = 8"
    by (simp_all add: layout_defs layout_new_def)
  have t: "alloc_run request_pages_test [layout_new 1 1, ?l] (new :: u32 inner_alloc) () =
     Inr ([Some 0, Some 1], \<lparr>next = 9, upper_limit = 65536\<rparr>, ())"
    by (simp add: alloc_eval)
  have w: "alloc_run request_pages_wasm32 [layout_new 1 1, ?l] (new :: u32 inner_alloc) ?m =
     Inr ([Some 131072, Some 131073], \<lparr>next = 131081, upper_limit = 196608\<rparr>,
          \<lparr>mem_pages = 3, mem_max = 16\<rparr>)"
    by (simp add: alloc_eval)
  have "\<not> start_aligned ?l (Some (0 + 1))"
    by (rule alloc_run_misaligned [where rp = request_pages_test and h = "()" and h' = "()",
          THEN conjunct2])
      (simp_all add: pad request_pages_test_def is_power_of_twoI [of 3, simplified])
  moreover have "\<not> start_aligned ?l (Some (131072 + 1))"
    by (rule alloc_run_misaligned [where rp = request_pages_wasm32 and h = ?m
          and h' = "\<lparr>mem_pages = 3, mem_max = 16\<rparr>", THEN conjunct2])
      (simp_all add: pad alloc_eval is_power_of_twoI [of 3, simplified])
  ultimately show ?thesis using t w by simp
qed

end
