(* ===== verification/Global_Alloc.thy ===== *)
theory Global_Alloc
  imports Bump_Alloc
begin

text \<open>
  The adapter that installs the allocator as the global allocator of the
  process: the static \<open>INNER\<close> and the \<open>GlobalAlloc\<close> implementation of
  \<open>BumpAllocator\<close>. The process state is the static together with the host;
  a raw pointer is its address, the null pointer is address zero. The calls of
  the trait are a datatype, \<open>global_step\<close> performs one call and
  \<open>global_run\<close> a sequence of calls, stopping at a panic. \<open>region_of\<close>
  is the region a call has handed to the caller (none for a null pointer),
  \<open>served\<close> the regions of a sequence of calls.
\<close>

record ('w, 'h) process =
  INNER :: "'w inner_alloc"
  host :: 'h

definition process_init :: "'h \<Rightarrow> ('a::len usize, 'h) process" where
  "process_init h = \<lparr>INNER = new, host = h\<rparr>"

definition null_mut :: "'a::len usize" where
  "null_mut = 0"

definition global_alloc ::
  "('a::len, 'h) page_source \<Rightarrow> 'a usize layout \<Rightarrow> ('a usize, 'h) process \<Rightarrow>
     panic + ('a usize \<times> ('a usize, 'h) process)" where
  "global_alloc rp layout st =
     (case alloc rp layout (INNER st) (host st) of
        Inl p \<Rightarrow> Inl p
      | Inr (Some start, inner, h) \<Rightarrow> Inr (start, \<lparr>INNER = inner, host = h\<rparr>)
      | Inr (None, inner, h) \<Rightarrow> Inr (null_mut, \<lparr>INNER = inner, host = h\<rparr>))"

definition global_alloc_zeroed ::
  "('a::len, 'h) page_source \<Rightarrow> 'a usize layout \<Rightarrow> ('a usize, 'h) process \<Rightarrow>
     panic + ('a usize \<times> ('a usize, 'h) process)" where
  "global_alloc_zeroed rp layout st = global_alloc rp layout st"

definition global_dealloc ::
  "'a::len usize \<Rightarrow> 'a usize layout \<Rightarrow> ('a usize, 'h) process \<Rightarrow> ('a usize, 'h) process" where
  "global_dealloc ptr layout st = st"

datatype 'w call = Alloc "'w layout" | Alloc_Zeroed "'w layout" | Dealloc 'w "'w layout"

datatype 'w ret = Ptr 'w | Unit

definition on_result :: "('r \<Rightarrow> 'q) \<Rightarrow> panic + ('r \<times> 's) \<Rightarrow> panic + ('q \<times> 's)" where
  "on_result f x = (case x of Inl p \<Rightarrow> Inl p | Inr (r, st) \<Rightarrow> Inr (f r, st))"

fun global_step ::
  "('a::len, 'h) page_source \<Rightarrow> 'a usize call \<Rightarrow> ('a usize, 'h) process \<Rightarrow>
     panic + ('a usize ret \<times> ('a usize, 'h) process)" where
  "global_step rp (Alloc l) st = on_result Ptr (global_alloc rp l st)"
| "global_step rp (Alloc_Zeroed l) st = on_result Ptr (global_alloc_zeroed rp l st)"
| "global_step rp (Dealloc p l) st = Inr (Unit, global_dealloc p l st)"

fun global_run ::
  "('a::len, 'h) page_source \<Rightarrow> 'a usize call list \<Rightarrow> ('a usize, 'h) process \<Rightarrow>
     panic + ('a usize ret list \<times> ('a usize, 'h) process)" where
  "global_run rp [] st = Inr ([], st)"
| "global_run rp (c # cs) st =
     (case global_step rp c st of
        Inl p \<Rightarrow> Inl p
      | Inr (r, st') \<Rightarrow> on_result ((#) r) (global_run rp cs st'))"

fun is_dealloc :: "'w call \<Rightarrow> bool" where
  "is_dealloc (Dealloc p l) = True"
| "is_dealloc c = False"

fun is_ptr :: "'w ret \<Rightarrow> bool" where
  "is_ptr (Ptr p) = True"
| "is_ptr Unit = False"


fun region_of :: "'a::len usize call \<Rightarrow> 'a usize ret \<Rightarrow> (nat \<times> nat) list" where
  "region_of (Alloc l) (Ptr p) = (if p = null_mut then [] else [(unat p, unat (aligned_size l))])"
| "region_of (Alloc_Zeroed l) (Ptr p) =
     (if p = null_mut then [] else [(unat p, unat (aligned_size l))])"
| "region_of c r = []"

definition served :: "'a::len usize call list \<Rightarrow> 'a usize ret list \<Rightarrow> (nat \<times> nat) list" where
  "served cs rets = concat (map2 region_of cs rets)"


section \<open>One call\<close>

lemma on_result_simps [simp]:
  "on_result f (Inl p) = Inl p" "on_result f (Inr (r, st)) = Inr (f r, st)"
  by (simp_all add: on_result_def)

lemma on_result_Inl_iff [simp]: "on_result f x = Inl p \<longleftrightarrow> x = Inl p"
  by (cases x) auto

lemma global_alloc_Inr_iff:
  "global_alloc rp l st = Inr (p, st') \<longleftrightarrow>
     (\<exists>r. alloc rp l (INNER st) (host st) = Inr (r, INNER st', host st') \<and>
          p = (case r of Some a \<Rightarrow> a | None \<Rightarrow> null_mut))"
  by (cases st') (auto simp: global_alloc_def split: sum.splits option.splits)

lemma global_step_dealloc [simp]: "global_step rp (Dealloc p l) st = Inr (Unit, st)"
  by (simp add: global_dealloc_def)


section \<open>Sequences of calls\<close>

text \<open>C26: deallocation never gives memory back: removing every \<open>dealloc\<close>
  from a sequence of calls changes neither an address returned by the other
  calls, nor the final state, nor whether and where the run panics.\<close>

theorem dealloc_never_reclaims:
  "global_run rp (filter (\<lambda>c. \<not> is_dealloc c) cs) st =
     on_result (filter is_ptr) (global_run rp cs st)"
proof (induction cs arbitrary: st)
  case Nil
  show ?case by simp
next
  case (Cons c cs)
  show ?case
  proof (cases c)
    case (Dealloc p l)
    then show ?thesis
      by (cases "global_run rp cs st") (auto simp: Cons.IH global_dealloc_def)
  next
    case (Alloc l)
    then show ?thesis
      by (cases "global_alloc rp l st"; cases "global_run rp cs (snd (projr (global_alloc rp l st)))")
        (auto simp: Cons.IH)
  next
    case (Alloc_Zeroed l)
    then show ?thesis
      by (cases "global_alloc rp l st"; cases "global_run rp cs (snd (projr (global_alloc rp l st)))")
        (auto simp: Cons.IH global_alloc_zeroed_def)
  qed
qed

end
