(* ===== verification/Zeroed_Memory.thy ===== *)
theory Zeroed_Memory
  imports Wasm_Alloc Global_Alloc
begin

text \<open>
  Why \<open>alloc_zeroed\<close> may be \<open>alloc\<close>. The source gives the reason in a
  comment: a new page of a WebAssembly memory is zero, so memory that is
  handed out for the first time needs no clearing. The argument needs more
  than fresh pages: no byte of the region may have been written since its
  page was granted. This theory states it with the caller in the model. A
  world is the process together with the regions the caller owns and the
  addresses that have been written; an event is a call of the allocator or a
  write by the caller. A write is permitted when it goes to the memory the
  module had at the start or into a region the caller owns. The theorem says
  that as long as every write is permitted, every region returned by a call
  is free of written addresses.
\<close>

record 'w world =
  w_proc :: "('w, wasm_memory) process"
  w_owned :: "(nat \<times> nat) list"
  w_dirty :: "nat list"

datatype 'w event = Call "'w call" | Write nat

datatype 'w outcome = Returned "'w ret" bool | Written bool

definition inside :: "nat \<Rightarrow> nat \<times> nat \<Rightarrow> bool" where
  "inside x r \<longleftrightarrow> fst r \<le> x \<and> x < fst r + snd r"

definition untouched :: "nat list \<Rightarrow> nat \<times> nat \<Rightarrow> bool" where
  "untouched d r \<longleftrightarrow> list_all (\<lambda>x. \<not> inside x r) d"

definition world_init :: "wasm_memory \<Rightarrow> nat list \<Rightarrow> 'a::len usize world" where
  "world_init m d = \<lparr>w_proc = process_init m, w_owned = [], w_dirty = d\<rparr>"

fun world_step ::
  "nat \<Rightarrow> 'a::len usize event \<Rightarrow> 'a usize world \<Rightarrow> panic + ('a usize outcome \<times> 'a usize world)" where
  "world_step b (Write x) w =
     Inr (Written (x < b \<or> list_ex (inside x) (w_owned w)), w\<lparr>w_dirty := x # w_dirty w\<rparr>)"
| "world_step b (Call c) w =
     (case global_step request_pages_wasm32 c (w_proc w) of
        Inl p \<Rightarrow> Inl p
      | Inr (r, st') \<Rightarrow>
          Inr (Returned r (list_all (untouched (w_dirty w)) (region_of c r)),
               w\<lparr>w_proc := st', w_owned := region_of c r @ w_owned w\<rparr>))"

fun world_run ::
  "nat \<Rightarrow> 'a::len usize event list \<Rightarrow> 'a usize world \<Rightarrow>
     panic + ('a usize outcome list \<times> 'a usize world)" where
  "world_run b [] w = Inr ([], w)"
| "world_run b (e # es) w =
     (case world_step b e w of
        Inl p \<Rightarrow> Inl p
      | Inr (out, w') \<Rightarrow> on_result ((#) out) (world_run b es w'))"

fun permitted :: "'w outcome \<Rightarrow> bool" where
  "permitted (Written ok) = ok"
| "permitted (Returned r z) = True"

fun fresh_region :: "'w outcome \<Rightarrow> bool" where
  "fresh_region (Returned r z) = z"
| "fresh_region (Written ok) = True"

definition world_inv :: "wasm_memory \<Rightarrow> 'a::len usize world \<Rightarrow> bool" where
  "world_inv m0 w \<longleftrightarrow>
     (let s = INNER (w_proc w) in
      wasm_grown m0 (upper_limit s) (host (w_proc w)) \<and> heap_started m0 s \<and> inner_inv s \<and>
      list_all (\<lambda>r. fst r + snd r \<le> unat (next s)) (w_owned w) \<and>
      list_all (\<lambda>x. x < mem_pages m0 * 65536 \<or> list_ex (inside x) (w_owned w)) (w_dirty w))"


section \<open>One event\<close>

lemma world_inv_init:
  "wasm_wf m \<Longrightarrow> list_all (\<lambda>x. x < mem_pages m * 65536) d \<Longrightarrow>
     world_inv m (world_init m d :: 'a::len usize world)"
  by (simp add: world_inv_def world_init_def process_init_def wasm_grown_def wasm_coupled_def
      list_all_iff)

lemma global_step_cases [consumes 1, case_names dealloc alloc]:
  assumes "global_step rp c st = Inr (r, st')"
  obtains (dealloc) "region_of c r = []" "st' = st"
  | (alloc) l q where "alloc rp l (INNER st) (host st) = Inr (q, INNER st', host st')"
      "region_of c r = (case q of None \<Rightarrow> [] | Some a \<Rightarrow>
         if a = 0 then [] else [(unat a, unat (aligned_size l))])"
proof (cases c)
  case (Dealloc p l)
  with assms that(1) show thesis by (auto simp: global_dealloc_def)
next
  case (Alloc l)
  with assms obtain q where "alloc rp l (INNER st) (host st) = Inr (q, INNER st', host st')"
    and "r = Ptr (case q of Some a \<Rightarrow> a | None \<Rightarrow> null_mut)"
    by (auto simp: on_result_def global_alloc_Inr_iff split: sum.splits)
  with Alloc that(2) show thesis by (auto simp: null_mut_def split: option.splits)
next
  case (Alloc_Zeroed l)
  with assms obtain q where "alloc rp l (INNER st) (host st) = Inr (q, INNER st', host st')"
    and "r = Ptr (case q of Some a \<Rightarrow> a | None \<Rightarrow> null_mut)"
    by (auto simp: on_result_def global_alloc_zeroed_def global_alloc_Inr_iff split: sum.splits)
  with Alloc_Zeroed that(2) show thesis by (auto simp: null_mut_def split: option.splits)
qed

lemma world_step_call:
  assumes len: "16 < LENGTH('a::len)" and inv: "world_inv m0 w"
    and step: "global_step request_pages_wasm32 c (w_proc w) = Inr (r, st' :: ('a usize, wasm_memory) process)"
  shows "list_all (untouched (w_dirty w)) (region_of c r)"
    and "world_inv m0 (w\<lparr>w_proc := st', w_owned := region_of c r @ w_owned w\<rparr>)"
proof -
  let ?s = "INNER (w_proc w)"
  from inv have J: "wasm_grown m0 (upper_limit ?s) (host (w_proc w))"
    and started: "heap_started m0 ?s" and iinv: "inner_inv ?s"
    and owned: "list_all (\<lambda>r. fst r + snd r \<le> unat (next ?s)) (w_owned w)"
    and dirty: "list_all (\<lambda>x. x < mem_pages m0 * 65536 \<or> list_ex (inside x) (w_owned w)) (w_dirty w)"
    by (simp_all add: world_inv_def Let_def)
  have "list_all (untouched (w_dirty w)) (region_of c r) \<and>
      world_inv m0 (w\<lparr>w_proc := st', w_owned := region_of c r @ w_owned w\<rparr>)"
    using step
  proof (cases rule: global_step_cases)
    case dealloc
    with inv show ?thesis by (simp add: world_inv_def)
  next
    case (alloc l q)
    note fresh = ps_fresh_wasm32_grown [OF len, of m0]
    note reg = alloc_region_step [OF len fresh J iinv alloc(1)]
    note above = alloc_wasm32_above [OF len J started alloc(1)]
    have J': "wasm_grown m0 (upper_limit (INNER st')) (host st')"
      by (rule alloc_coupling [OF len fresh J alloc(1)])
    from owned reg(2) have owned': "list_all (\<lambda>r. fst r + snd r \<le> unat (next (INNER st'))) (w_owned w)"
      by (auto simp: list_all_iff)
    show ?thesis
    proof (cases "region_of c r")
      case Nil
      with J' above(1) reg(1) owned' dirty show ?thesis by (simp add: world_inv_def)
    next
      case (Cons x xs)
      with alloc(2) obtain a where q: "q = Some a" "a \<noteq> 0"
        and region: "region_of c r = [(unat a, unat (aligned_size l))]"
        by (auto split: option.splits if_splits)
      from q(2) have "0 < unat a" by (simp add: unat_gt_0)
      with above(2) [OF q(1)] have base: "mem_pages m0 * 65536 \<le> unat a" by simp
      from reg(3) [OF q(1)] have lo: "unat (next ?s) \<le> unat a"
        and hi: "unat (next (INNER st')) = unat a + unat (aligned_size l)" by simp_all
      from dirty owned lo base have "untouched (w_dirty w) (unat a, unat (aligned_size l))"
        by (fastforce simp: untouched_def inside_def list_all_iff list_ex_iff)
      moreover from dirty have "list_all (\<lambda>x. x < mem_pages m0 * 65536 \<or>
          list_ex (inside x) ((unat a, unat (aligned_size l)) # w_owned w)) (w_dirty w)"
        by (auto simp: list_all_iff)
      ultimately show ?thesis using J' above(1) reg(1) owned' hi
        by (simp add: world_inv_def region)
    qed
  qed
  then show "list_all (untouched (w_dirty w)) (region_of c r)"
    and "world_inv m0 (w\<lparr>w_proc := st', w_owned := region_of c r @ w_owned w\<rparr>)"
    by simp_all
qed

lemma world_step_inv:
  assumes "16 < LENGTH('a::len)" and "world_inv m0 w"
    and "world_step (mem_pages m0 * 65536) e w = Inr (out, w' :: 'a usize world)"
    and "permitted out"
  shows "fresh_region out \<and> world_inv m0 w'"
proof (cases e)
  case (Write x)
  with assms(2,3,4) show ?thesis by (auto simp: world_inv_def)
next
  case (Call c)
  with assms(3) obtain r st'
    where step: "global_step request_pages_wasm32 c (w_proc w) = Inr (r, st')"
    and out: "out = Returned r (list_all (untouched (w_dirty w)) (region_of c r))"
    and w': "w' = w\<lparr>w_proc := st', w_owned := region_of c r @ w_owned w\<rparr>"
    by (auto split: sum.splits)
  from world_step_call [OF assms(1,2) step] show ?thesis by (simp add: out w')
qed


section \<open>Every region returned is untouched\<close>

lemma world_run_fresh:
  assumes len: "16 < LENGTH('a::len)"
  shows "world_inv m0 w \<Longrightarrow>
     world_run (mem_pages m0 * 65536) es w = Inr (outs, w' :: 'a usize world) \<Longrightarrow>
     list_all permitted outs \<Longrightarrow> list_all fresh_region outs \<and> world_inv m0 w'"
proof (induction es arbitrary: w outs)
  case Nil
  then show ?case by simp
next
  case (Cons e es)
  from Cons.prems(2) obtain out w1 outs'
    where one: "world_step (mem_pages m0 * 65536) e w = Inr (out, w1)"
    and rest: "world_run (mem_pages m0 * 65536) es w1 = Inr (outs', w')"
    and outs: "outs = out # outs'"
    by (auto simp: on_result_def split: sum.splits prod.splits)
  from Cons.prems(3) have ok: "permitted out" "list_all permitted outs'" by (simp_all add: outs)
  from world_step_inv [OF len Cons.prems(1) one ok(1)] Cons.IH [OF _ rest ok(2)]
  show ?case by (simp add: outs)
qed

text \<open>C12: on wasm32, in any sequence of allocator calls and writes by the
  caller that starts from the initial process state, as long as the caller
  writes only to the memory the module had at the start and into regions it
  has been given, every region returned by \<open>alloc\<close> or \<open>alloc_zeroed\<close>
  contains no address that has been written: it lies in pages that are as the
  host granted them, which is why \<open>alloc_zeroed\<close> does not clear it.\<close>

theorem alloc_zeroed_untouched:
  assumes "16 < LENGTH('a::len)" and "wasm_wf m"
    and "list_all (\<lambda>x. x < mem_pages m * 65536) d"
    and "world_run (mem_pages m * 65536) es (world_init m d) = Inr (outs, w' :: 'a usize world)"
    and "list_all permitted outs"
  shows "list_all fresh_region outs"
  using world_run_fresh [OF assms(1) world_inv_init [OF assms(2,3)] assms(4,5)] by simp

theorem alloc_zeroed_untouched_witness:
  "world_run (2 * 65536) [Call (Alloc (layout_new 8 8)), Write 131073, Write 5,
      Call (Alloc_Zeroed (layout_new 8 8))]
     (world_init \<lparr>mem_pages = 2, mem_max = 16\<rparr> [7] :: u32 world) =
   Inr ([Returned (Ptr 131072) True, Written True, Written True, Returned (Ptr 131080) True],
        \<lparr>w_proc = \<lparr>INNER = \<lparr>next = 131088, upper_limit = 196608\<rparr>,
                    host = \<lparr>mem_pages = 3, mem_max = 16\<rparr>\<rparr>,
         w_owned = [(131080, 8), (131072, 8)], w_dirty = [5, 131073, 7]\<rparr>)"
proof -
  let ?es = "[Call (Alloc (layout_new 8 8)), Write 131073, Write 5,
      Call (Alloc_Zeroed (layout_new 8 8))] :: u32 event list"
  let ?m = "\<lparr>mem_pages = 2, mem_max = 16\<rparr>"
  obtain z1 z2 where run: "world_run (mem_pages ?m * 65536) ?es (world_init ?m [7] :: u32 world) =
   Inr ([Returned (Ptr 131072) z1, Written True, Written True, Returned (Ptr 131080) z2],
        \<lparr>w_proc = \<lparr>INNER = \<lparr>next = 131088, upper_limit = 196608\<rparr>,
                    host = \<lparr>mem_pages = 3, mem_max = 16\<rparr>\<rparr>,
         w_owned = [(131080, 8), (131072, 8)], w_dirty = [5, 131073, 7]\<rparr>)"
    by (simp add: alloc_eval world_init_def process_init_def global_alloc_def
        global_alloc_zeroed_def null_mut_def inside_def)
  have "wasm_wf ?m" by (simp add: wasm_wf_def)
  from alloc_zeroed_untouched [OF _ this _ run] run show ?thesis by simp
qed

end
