(* ===== verification/Bump_Tests.thy ===== *)
theory Bump_Tests
  imports Bump_Alloc "HOL-Library.Monad_Syntax"
begin

text \<open>
  The tests of the source file (modules \<open>tests\<close> and \<open>fuzz_tests\<close>) as
  executable definitions. A test body is a computation in the option monad:
  \<open>None\<close> is a panic (a failed assertion, an \<open>unwrap\<close> of nothing, an
  arithmetic overflow or a division by zero of the debug build the tests run
  in), \<open>Some\<close> is a test that ran to its end. The tests run on the host,
  whose \<open>usize\<close> has 64 bits, with the test variant of \<open>request_pages\<close>.
  \<open>Layout::new::<T>()\<close> is \<open>layout_new\<close> at the size and alignment of \<open>T\<close>;
  the layout of \<open>FooBarBaz\<close>, which the compiler chooses, is a parameter of
  its test. \<open>test_alloc\<close> is the call \<open>inner.alloc(layout)\<close> as the test
  bodies make it: \<open>alloc\<close> with the test page source, a panic read as
  \<open>None\<close>. Evaluating each unit test validates the model against the
  repository's own expectations; the theorems are about all inputs: the two
  property tests pass or are discarded for every \<open>n\<close>, the loop of
  \<open>can_alloc_a_foobarbaz\<close> passes for every layout the compiler can choose,
  and the test of many chunks, whose list of sizes is a parameter here, passes
  for the lists that \<open>crossings_ok\<close> accepts and for no other.
\<close>

type_synonym test = "unit option"

datatype test_result = Discard | Passed

definition assert_eq :: "'a \<Rightarrow> 'a \<Rightarrow> test" where
  "assert_eq a b = (if a = b then Some () else None)"

definition assert :: "bool \<Rightarrow> test" where
  "assert b = (if b then Some () else None)"

definition unwrap_ok :: "'e + 'a \<Rightarrow> 'a option" where
  "unwrap_ok r = (case r of Inl e \<Rightarrow> None | Inr x \<Rightarrow> Some x)"

definition size_of_usize :: u64 where
  "size_of_usize = 8"

definition test_alloc :: "u64 inner_alloc \<Rightarrow> u64 layout \<Rightarrow> (u64 option \<times> u64 inner_alloc) option" where
  "test_alloc inner layout =
     (case alloc request_pages_test layout inner () of
        Inl p \<Rightarrow> None
      | Inr (r, inner', u) \<Rightarrow> Some (r, inner'))"

definition can_alloc_no_bytes :: test where
  "can_alloc_no_bytes = do {
     let inner = new;
     let layout = layout_new 0 1;
     (r, inner) \<leftarrow> test_alloc inner layout;
     assert_eq r (Some 0);
     pages \<leftarrow> required_pages (l_size (pad_to_align layout));
     expected_limit \<leftarrow> checked_mul PAGE_SIZE pages;
     assert_eq (upper_limit inner) expected_limit;
     let expected_alloc_start = 0;
     assert_eq (next inner) expected_alloc_start
   }"

definition can_alloc_a_byte :: test where
  "can_alloc_a_byte = do {
     let inner = new;
     let layout = layout_new 1 1;
     (r, inner) \<leftarrow> test_alloc inner layout;
     assert_eq r (Some 0);
     pages \<leftarrow> required_pages (l_size (pad_to_align layout));
     expected_limit \<leftarrow> checked_mul PAGE_SIZE pages;
     assert_eq (upper_limit inner) expected_limit;
     let expected_alloc_start = 1;
     assert_eq (next inner) expected_alloc_start
   }"

fun foobarbaz_loop ::
  "nat list \<Rightarrow> u64 layout \<Rightarrow> u64 inner_alloc \<times> u64 \<Rightarrow> (u64 inner_alloc \<times> u64) option" where
  "foobarbaz_loop [] layout (inner, total_size) = Some (inner, total_size)"
| "foobarbaz_loop (i # rest) layout (inner, total_size) = do {
     (r, inner) \<leftarrow> test_alloc inner layout;
     assert (r \<noteq> None);
     total_size \<leftarrow> checked_add total_size (l_size (pad_to_align layout));
     foobarbaz_loop rest layout (inner, total_size)
   }"

definition can_alloc_a_foobarbaz :: "u64 layout \<Rightarrow> test" where
  "can_alloc_a_foobarbaz foobarbaz = do {
     let inner = new;
     let layout = foobarbaz;
     let total_size = 0;
     let allocations = 3;
     (inner, total_size) \<leftarrow> foobarbaz_loop [0..<unat allocations] layout (inner, total_size);
     pages \<leftarrow> required_pages total_size;
     expected_limit \<leftarrow> checked_mul PAGE_SIZE pages;
     assert_eq (upper_limit inner) expected_limit;
     expected_alloc_start \<leftarrow> checked_mul allocations (l_size foobarbaz);
     assert_eq (next inner) expected_alloc_start
   }"

definition can_alloc_across_pages :: test where
  "can_alloc_across_pages = do {
     let inner = new;
     let layout = layout_new (PAGE_SIZE - 1) 1;
     (r, inner) \<leftarrow> test_alloc inner layout;
     assert_eq r (Some 0);
     pages \<leftarrow> required_pages (l_size (pad_to_align layout));
     expected_limit \<leftarrow> checked_mul PAGE_SIZE pages;
     assert_eq (upper_limit inner) expected_limit;
     let expected_alloc_start = PAGE_SIZE - 1;
     assert_eq (next inner) expected_alloc_start;
     let layout = layout_new 2 2;
     (r, inner) \<leftarrow> test_alloc inner layout;
     assert_eq r (Some PAGE_SIZE);
     expected_limit \<leftarrow> checked_mul 2 PAGE_SIZE;
     assert_eq (upper_limit inner) expected_limit;
     expected_alloc_start \<leftarrow> checked_add PAGE_SIZE 2;
     assert_eq (next inner) expected_alloc_start
   }"

definition can_alloc_multiple_pages :: test where
  "can_alloc_multiple_pages = do {
     let inner = new;
     let layout = layout_new (2 * PAGE_SIZE) 1;
     (r, inner) \<leftarrow> test_alloc inner layout;
     assert_eq r (Some 0);
     pages \<leftarrow> required_pages (l_size (pad_to_align layout));
     expected_limit \<leftarrow> checked_mul PAGE_SIZE pages;
     assert_eq (upper_limit inner) expected_limit;
     let expected_alloc_start = 2 * PAGE_SIZE;
     assert_eq (next inner) expected_alloc_start;
     let layout = layout_new 1 1;
     (r, inner) \<leftarrow> test_alloc inner layout;
     assert_eq r (Some (2 * PAGE_SIZE));
     expected_limit \<leftarrow> checked_mul 3 PAGE_SIZE;
     assert_eq (upper_limit inner) expected_limit;
     two_pages \<leftarrow> checked_mul 2 PAGE_SIZE;
     expected_alloc_start \<leftarrow> checked_add two_pages 1;
     assert_eq (next inner) expected_alloc_start
   }"

fun chunks_loop ::
  "u64 list \<Rightarrow> u64 inner_alloc \<times> u64 \<times> u64 \<times> u64 \<Rightarrow>
     (u64 inner_alloc \<times> u64 \<times> u64 \<times> u64) option" where
  "chunks_loop [] st = Some st"
| "chunks_loop (chunk # v)
     (inner, total_bytes_requested, expected_alloc_start, total_bytes_fragmented) = do {
     n \<leftarrow> checked_mul chunk 1024;
     layout \<leftarrow> unwrap_ok (from_size_align n size_of_usize);
     let size = l_size (pad_to_align layout);
     pages \<leftarrow> required_pages (next inner);
     current_page_limit \<leftarrow> checked_mul pages PAGE_SIZE;
     alloc_end \<leftarrow> checked_add (next inner) size;
     let is_too_big_for_current_page = alloc_end > current_page_limit;
     (total_bytes_fragmented, expected_alloc_start) \<leftarrow>
       (if is_too_big_for_current_page \<and> next inner \<noteq> 0 then do {
          fragmented_in_current_page \<leftarrow> checked_rem current_page_limit (next inner);
          total_bytes_fragmented \<leftarrow> checked_add total_bytes_fragmented fragmented_in_current_page;
          Some (total_bytes_fragmented, upper_limit inner)
        } else Some (total_bytes_fragmented, expected_alloc_start));
     (r, inner) \<leftarrow> test_alloc inner layout;
     assert_eq r (Some expected_alloc_start);
     total_bytes_requested \<leftarrow> checked_add total_bytes_requested size;
     total \<leftarrow> checked_add total_bytes_requested total_bytes_fragmented;
     pages_required \<leftarrow> required_pages total;
     expected_limit \<leftarrow> checked_mul pages_required PAGE_SIZE;
     assert_eq (upper_limit inner) expected_limit;
     let expected_alloc_start = total;
     assert_eq (next inner) expected_alloc_start;
     chunks_loop v (inner, total_bytes_requested, expected_alloc_start, total_bytes_fragmented)
   }"

definition can_alloc_many_different_sized_chunks_of :: "u64 list \<Rightarrow> test" where
  "can_alloc_many_different_sized_chunks_of v = do {
     let inner = new;
     let total_bytes_requested = 0;
     let expected_alloc_start = 0;
     let total_bytes_fragmented = 0;
     st \<leftarrow> chunks_loop v (inner, total_bytes_requested, expected_alloc_start, total_bytes_fragmented);
     Some ()
   }"

definition can_alloc_many_different_sized_chunks :: test where
  "can_alloc_many_different_sized_chunks =
     can_alloc_many_different_sized_chunks_of [32, 30, 6, 20, 20, 20, 10, 130]"

text \<open>
  What the test of many chunks expects, read off its assertions. Over the
  sizes in bytes, from the cursors \<open>nx\<close> and \<open>lim\<close> of the allocator: a
  chunk that fits below the limit moves \<open>next\<close>; one that does not is placed
  at the limit, which grows by the pages of the chunk, and the assertions of
  the test hold there only if \<open>next\<close> was zero or more than half of the
  limit, since the test takes the bytes lost in the page to be
  \<^verbatim>\<open>current_page_limit % inner.next\<close>. \<open>chunks_inv\<close> is the invariant of the
  loop: the expected start is \<open>next\<close>, which is the sum of the two totals,
  and the limit is \<open>next\<close> rounded up to whole pages.
\<close>

fun crossings_ok :: "nat \<Rightarrow> nat \<Rightarrow> nat list \<Rightarrow> bool" where
  "crossings_ok nx lim [] = True"
| "crossings_ok nx lim (s # ss) =
     (if nx + s \<le> lim then crossings_ok (nx + s) lim ss
      else (nx = 0 \<or> lim < 2 * nx) \<and>
           crossings_ok (lim + s) (lim + (s + 65535) div 65536 * 65536) ss)"

definition chunks_inv :: "u64 inner_alloc \<times> u64 \<times> u64 \<times> u64 \<Rightarrow> bool" where
  "chunks_inv st = (case st of (inner, requested, expected, fragmented) \<Rightarrow>
     unat (next inner) = unat requested + unat fragmented \<and> expected = next inner \<and>
     unat (upper_limit inner) = (unat (next inner) + 65535) div 65536 * 65536)"

definition fuzz_should_allocate_random_bytes_that_do_not_overflow :: "u64 \<Rightarrow> test_result option" where
  "fuzz_should_allocate_random_bytes_that_do_not_overflow n =
     (if checked_add n (PAGE_SIZE - 1) = None then Some Discard
      else do {
        let inner = new;
        layout \<leftarrow> unwrap_ok (from_size_align n size_of_usize);
        let size = l_size (pad_to_align layout);
        (r, inner) \<leftarrow> test_alloc inner layout;
        assert_eq r (Some 0);
        pages \<leftarrow> required_pages size;
        expected_limit \<leftarrow> checked_mul PAGE_SIZE pages;
        assert_eq (upper_limit inner) expected_limit;
        let expected_alloc_start = size;
        assert_eq (next inner) expected_alloc_start;
        Some Passed
      })"

definition fuzz_should_not_allocate_if_it_overflows :: "u64 \<Rightarrow> test_result option" where
  "fuzz_should_not_allocate_if_it_overflows n =
     (if checked_add n (PAGE_SIZE - 1) \<noteq> None then Some Discard
      else case from_size_align n size_of_usize of
        Inr layout \<Rightarrow> do {
          let inner = new;
          (r, inner) \<leftarrow> test_alloc inner layout;
          assert_eq r None;
          Some Passed
        }
      | Inl e \<Rightarrow> Some Discard)"

lemmas test_eval = assert_eq_def assert_def unwrap_ok_def test_alloc_def size_of_usize_def
  from_size_align_def alloc_eval


section \<open>The unit tests as the source has them\<close>

lemma size_of_usize_pow2 [simp]: "is_power_of_two (8 :: u64)"
  using is_power_of_twoI [of 3, where 'a = 64] by simp

lemma range_0_3: "[0..<3] = [0, 1, 2]"
  by (simp add: numeral_3_eq_3)

lemma can_alloc_no_bytes_passes: "can_alloc_no_bytes = Some ()"
  by (simp add: can_alloc_no_bytes_def test_eval)

lemma can_alloc_a_byte_passes: "can_alloc_a_byte = Some ()"
  by (simp add: can_alloc_a_byte_def test_eval)

lemma can_alloc_across_pages_passes: "can_alloc_across_pages = Some ()"
  by (simp add: can_alloc_across_pages_def test_eval)

lemma can_alloc_multiple_pages_passes: "can_alloc_multiple_pages = Some ()"
  by (simp add: can_alloc_multiple_pages_def test_eval)

lemma can_alloc_a_foobarbaz_24_8: "can_alloc_a_foobarbaz (layout_new 24 8) = Some ()"
  by (simp add: can_alloc_a_foobarbaz_def test_eval range_0_3)

lemma can_alloc_a_foobarbaz_32_16: "can_alloc_a_foobarbaz (layout_new 32 16) = Some ()"
  by (simp add: can_alloc_a_foobarbaz_def test_eval range_0_3)

lemma can_alloc_many_different_sized_chunks_passes:
  "can_alloc_many_different_sized_chunks = Some ()"
  by (simp add: can_alloc_many_different_sized_chunks_def
      can_alloc_many_different_sized_chunks_of_def test_eval)


section \<open>The property tests pass for every input\<close>

lemma alloc_test_fresh:
  assumes "16 < LENGTH('a::len)" and "required_pages (aligned_size l) = Some (p :: 'a word)"
  shows "alloc request_pages_test l new h =
           Inr (Some 0, \<lparr>next = aligned_size l, upper_limit = p * PAGE_SIZE\<rparr>, h)"
proof (cases "aligned_size l = 0")
  case True
  with required_pages_unat [OF assms] have "unat p = 0" by simp
  then have "p = 0" by (simp add: unat_eq_zero)
  with True show ?thesis using alloc_fits_unat [of new l request_pages_test h]
    by (simp add: new_def)
next
  case False
  then have pos: "0 < unat (aligned_size l)" by (simp add: unat_gt_0)
  have lt: "unat (aligned_size l) + 65535 < 2 ^ LENGTH('a)"
    using assms by (simp add: required_pages_Some_iff)
  have "unat p * 65536 < unat (aligned_size l) + 65536"
    by (rule required_pages_covers(2) [OF assms])
  with lt have "unat p * unat (PAGE_SIZE :: 'a word) < 2 ^ LENGTH('a)"
    using assms(1) by (simp add: unat_PAGE_SIZE)
  then have lim: "Option.bind (checked_mul p PAGE_SIZE) (checked_add 0) = Some (p * PAGE_SIZE)"
    by (simp add: checked_mul_SomeI)
  have add: "checked_add (next new) (aligned_size l) = Some (aligned_size l)"
    by simp
  have short: "upper_limit (new :: 'a usize inner_alloc) < aligned_size l"
    using pos by (simp add: word_less_nat_alt)
  have "alloc request_pages_test l new h =
      Inr (Some 0, \<lparr>next = 0 + aligned_size l, upper_limit = p * PAGE_SIZE\<rparr>, h)"
    by (rule alloc_grow [OF assms(1) add short assms(2) _ lim])
      (simp add: request_pages_test_def)
  then show ?thesis by simp
qed


lemma usize_layout:
  assumes "unat (n :: u64) + 8 \<le> 2 ^ 64"
  shows "from_size_align n size_of_usize = Inr \<lparr>l_size = n, l_align = 8\<rparr>"
    and "unat (aligned_size \<lparr>l_size = n, l_align = 8 :: u64\<rparr>) = round_up_nat (unat n) 8"
proof -
  have ok: "layout_ok \<lparr>l_size = n, l_align = 8 :: u64\<rparr>"
    using assms by (simp add: layout_ok_iff)
  then show "from_size_align n size_of_usize = Inr \<lparr>l_size = n, l_align = 8\<rparr>"
    by (simp add: from_size_align_ok size_of_usize_def)
  from ok show "unat (aligned_size \<lparr>l_size = n, l_align = 8 :: u64\<rparr>) = round_up_nat (unat n) 8"
    by (simp add: unat_aligned_size)
qed

text \<open>C30: the first property test passes for every \<open>n\<close> it does not
  discard: a single allocation of \<open>n\<close> bytes, aligned to the word size, from a
  fresh allocator returns address 0 and leaves \<open>next\<close> at the padded size and
  \<open>upper_limit\<close> at the page size times the required pages.\<close>

theorem fuzz_allocate_passes:
  "fuzz_should_allocate_random_bytes_that_do_not_overflow n =
     (if unat n + 65535 < 2 ^ 64 then Some Passed else Some Discard)"
proof (cases "unat n + 65535 < 2 ^ 64")
  case False
  then show ?thesis
    by (simp add: fuzz_should_allocate_random_bytes_that_do_not_overflow_def
        checked_add_None_iff unat_PAGE_SIZE_minus_1)
next
  case True
  let ?l = "\<lparr>l_size = n, l_align = 8 :: u64\<rparr>"
  from True have n8: "unat n + 8 \<le> 2 ^ 64" by simp
  have "round_up_nat (unat n) 8 \<le> 2 ^ 64 - 65536"
    using True by (intro round_up_nat_le_multiple) simp_all
  then have "unat (aligned_size ?l) + 65535 < 2 ^ 64"
    by (simp add: usize_layout(2) [OF n8])
  then obtain p where p: "required_pages (aligned_size ?l) = Some p"
    by (auto simp: required_pages_Some_iff)
  have run: "test_alloc new ?l = Some (Some 0, \<lparr>next = aligned_size ?l, upper_limit = p * PAGE_SIZE\<rparr>)"
    by (simp add: test_alloc_def alloc_test_fresh [OF _ p])
  from True have "checked_add n (PAGE_SIZE - 1) \<noteq> None"
    by (simp add: checked_add_None_iff unat_PAGE_SIZE_minus_1)
  then show ?thesis using True
    by (simp add: fuzz_should_allocate_random_bytes_that_do_not_overflow_def
        usize_layout(1) [OF n8] unwrap_ok_def run assert_eq_def p required_pages_mul(2) [OF _ p])
qed

text \<open>C31: the second property test passes for every \<open>n\<close> it does not
  discard: when \<open>n + 65535\<close> overflows, an allocation of \<open>n\<close> bytes from a
  fresh allocator fails.\<close>

theorem fuzz_overflow_passes:
  "fuzz_should_not_allocate_if_it_overflows n =
     (if unat n + 65535 < 2 ^ 64 \<or> 2 ^ 64 < unat n + 8 then Some Discard else Some Passed)"
proof (cases "unat n + 65535 < 2 ^ 64")
  case True
  then show ?thesis
    by (simp add: fuzz_should_not_allocate_if_it_overflows_def checked_add_Some_iff
        unat_PAGE_SIZE_minus_1)
next
  case over: False
  then have none: "checked_add n (PAGE_SIZE - 1) = None"
    by (simp add: checked_add_None_iff unat_PAGE_SIZE_minus_1)
  show ?thesis
  proof (cases "2 ^ 64 < unat n + 8")
    case True
    then have "\<not> layout_ok \<lparr>l_size = n, l_align = 8 :: u64\<rparr>" by (simp add: layout_ok_iff)
    then have "\<exists>e. from_size_align n size_of_usize = Inl e"
      by (cases "from_size_align n size_of_usize") (auto simp: from_size_align_ok size_of_usize_def)
    with none over True show ?thesis
      by (auto simp: fuzz_should_not_allocate_if_it_overflows_def)
  next
    case False
    let ?l = "\<lparr>l_size = n, l_align = 8 :: u64\<rparr>"
    from False have n8: "unat n + 8 \<le> 2 ^ 64" by simp
    have "unat n \<le> unat (aligned_size ?l)"
      using n8 by (intro aligned_size_ge [of ?l, simplified]) (simp add: layout_ok_iff)
    with over have big: "2 ^ 64 \<le> unat (aligned_size ?l) + 65535" by simp
    then have "0 < unat (aligned_size ?l)" by simp
    then have "alloc request_pages_test ?l (new :: u64 inner_alloc) () = Inr (None, new, ())"
      using big by (intro alloc_count_overflow) simp_all
    then show ?thesis using none over False
      by (simp add: fuzz_should_not_allocate_if_it_overflows_def usize_layout(1) [OF n8]
          test_alloc_def assert_eq_def)
  qed
qed


section \<open>The loop of equal requests, for every layout\<close>

lemma test_alloc_fits:
  "unat (next s) + unat (aligned_size l) \<le> unat (upper_limit s) \<Longrightarrow>
     test_alloc s l = Some (Some (next s), s\<lparr>next := next s + aligned_size l\<rparr>)"
  by (simp add: test_alloc_def alloc_fits_unat)

lemma required_pages_one:
  assumes len: "16 < LENGTH('a::len)" and n: "0 < unat (n :: 'a word)" "unat n \<le> 65536"
  shows "required_pages n = Some 1"
proof -
  have "(2::nat) ^ 17 \<le> 2 ^ LENGTH('a)"
    using len by (intro power_increasing) simp_all
  with n(2) have "unat n + 65535 < 2 ^ LENGTH('a)" by simp
  then obtain p where p: "required_pages n = Some p"
    by (auto simp: required_pages_Some_iff [OF len])
  from n have "(unat n + 65535) div 65536 = 1" by simp
  with required_pages_unat [OF len p] have "unat p = unat (1 :: 'a word)" by simp
  then have "p = 1" by (rule word_eq_unatI)
  with p show ?thesis by simp
qed

lemma foobarbaz_loop_first:
  "test_alloc s l = Some (Some a, s') \<Longrightarrow> checked_add t (aligned_size l) = Some t' \<Longrightarrow>
     foobarbaz_loop (i # rest) l (s, t) = foobarbaz_loop rest l (s', t')"
  by (simp add: assert_def)

lemma foobarbaz_loop_fits:
  "unat (next s) + length is * unat (aligned_size l) \<le> unat (upper_limit s) \<Longrightarrow>
   unat t + length is * unat (aligned_size l) \<le> unat (upper_limit s) \<Longrightarrow>
     foobarbaz_loop is l (s, t) =
       Some (s\<lparr>next := next s + of_nat (length is) * aligned_size l\<rparr>,
             t + of_nat (length is) * aligned_size l)"
proof (induction "is" arbitrary: s t)
  case Nil
  show ?case by simp
next
  case (Cons i "is")
  let ?n = "aligned_size l"
  let ?s = "s\<lparr>next := next s + ?n\<rparr>"
  from Cons.prems have one: "unat (next s) + unat ?n \<le> unat (upper_limit s)"
    and tot: "unat t + unat ?n \<le> unat (upper_limit s)" by simp_all
  have un: "unat (next s + ?n) = unat (next s) + unat ?n"
    and ut: "unat (t + ?n) = unat t + unat ?n"
    using one tot by (simp_all add: unat_add_bounded)
  from Cons.prems un ut
  have "foobarbaz_loop is l (?s, t + ?n) =
      Some (?s\<lparr>next := next ?s + of_nat (length is) * ?n\<rparr>, t + ?n + of_nat (length is) * ?n)"
    by (intro Cons.IH) simp_all
  then show ?case
    using test_alloc_fits [OF one] checked_add_bounded [OF tot]
    by (simp add: assert_def algebra_simps)
qed

text \<open>C36: the test \<open>can_alloc_a_foobarbaz\<close> passes for every layout the
  compiler can give \<open>FooBarBaz\<close>: a valid layout whose size is a multiple of
  its alignment, as the size of a Rust type is, and of which three fit one
  page. The layout is a parameter of the test since the source leaves it to
  the compiler.\<close>

theorem can_alloc_a_foobarbaz_passes:
  assumes ok: "layout_ok l" and mult: "unat (l_align l) dvd unat (l_size l)"
    and small: "3 * unat (l_size l) \<le> 65536"
  shows "can_alloc_a_foobarbaz l = Some ()"
proof -
  let ?n = "l_size l"
  let ?s = "\<lparr>next = ?n, upper_limit = PAGE_SIZE\<rparr> :: u64 inner_alloc"
  have pad: "aligned_size l = ?n" using ok mult by (rule aligned_size_multiple)
  have range: "[0..<unat (3 :: u64)] = [0, 1, 2]" by (simp add: range_0_3)
  have mul: "checked_mul 3 ?n = Some (3 * ?n)"
    using small by (simp add: checked_mul_SomeI)
  show ?thesis
  proof (cases "?n = 0")
    case True
    have "foobarbaz_loop [0..<unat (3 :: u64)] l (new, 0) = Some (new, 0)"
      unfolding range using foobarbaz_loop_fits [of new "[0, 1, 2]" l 0]
      by (simp add: pad True del: foobarbaz_loop.simps)
    then show ?thesis
      unfolding can_alloc_a_foobarbaz_def Let_def
      by (simp add: True required_pages_def checked_defs PAGE_SIZE_def assert_eq_def)
  next
    case False
    then have pos: "0 < unat ?n" by (simp add: unat_gt_0)
    have one: "required_pages ?n = Some 1"
      using pos small by (intro required_pages_one) simp_all
    have first: "test_alloc new l = Some (Some 0, ?s)"
      using alloc_test_fresh [of l 1 "()"] one
      by (simp add: test_alloc_def pad)
    have u3: "unat (3 * ?n) = 3 * unat ?n"
      using small by (simp add: unat_mult_no_overflow)
    have "foobarbaz_loop [0, 1, 2] l (new, 0) = foobarbaz_loop [1, 2] l (?s, ?n)"
      by (rule foobarbaz_loop_first [OF first]) (simp add: pad)
    also have "\<dots> = Some (?s\<lparr>next := 3 * ?n\<rparr>, 3 * ?n)"
      using foobarbaz_loop_fits [of ?s "[1, 2]" l ?n] small
      by (simp add: pad unat_PAGE_SIZE del: foobarbaz_loop.simps)
    finally have loop: "foobarbaz_loop [0..<unat (3 :: u64)] l (new, 0) =
        Some (?s\<lparr>next := 3 * ?n\<rparr>, 3 * ?n)"
      unfolding range .
    have three: "required_pages (3 * ?n) = Some 1"
      using pos small u3 by (intro required_pages_one) simp_all
    show ?thesis
      unfolding can_alloc_a_foobarbaz_def Let_def loop using small
      by (simp add: three mul assert_eq_def checked_mul_def unat_PAGE_SIZE)
  qed
qed

theorem can_alloc_a_foobarbaz_passes_witness:
  "can_alloc_a_foobarbaz (layout_new 32 16) = Some () \<and> can_alloc_a_foobarbaz (layout_new 24 8) = Some ()"
proof -
  have "is_power_of_two (16 :: u64)" using is_power_of_twoI [of 4, where 'a = 64] by simp
  then have "layout_ok (layout_new 32 16 :: u64 layout)" "layout_ok (layout_new 24 8 :: u64 layout)"
    by (simp_all add: layout_ok_iff layout_new_def)
  with can_alloc_a_foobarbaz_passes [of "layout_new 32 16"]
    can_alloc_a_foobarbaz_passes [of "layout_new 24 8"] can_alloc_a_foobarbaz_32_16
  show ?thesis by (simp add: layout_new_def)
qed


section \<open>The test of many chunks, for every list of sizes\<close>

text \<open>
  One turn of the loop is executed symbolically under a bound that keeps
  every checked operation of the test from overflowing
  (\<open>chunks_loop_plain\<close> when no fragmentation is booked,
  \<open>chunks_loop_frag\<close> when it is); the three ways a chunk can be served
  (\<open>chunks_loop_fit\<close>, \<open>chunks_loop_first\<close>, \<open>chunks_loop_later\<close>) keep
  \<open>chunks_inv\<close> and follow \<open>crossings_ok\<close>.
\<close>

lemma ceil_page_fit:
  assumes "nx + s \<le> (nx + 65535) div 65536 * 65536"
  shows "(nx + s + 65535) div 65536 = (nx + 65535) div (65536::nat)"
proof (rule div_nat_eqI)
  have "(nx + 65535) div 65536 * 65536 \<le> nx + 65535" by simp
  then show "65536 * ((nx + 65535) div 65536) \<le> nx + s + 65535" by simp
  from assms show "nx + s + 65535 < 65536 * Suc ((nx + 65535) div 65536)" by simp
qed

lemma ceil_page_next:
  assumes "65536 dvd lim"
  shows "(lim + s + 65535) div 65536 * 65536 = lim + (s + 65535) div 65536 * (65536::nat)"
proof -
  from assms obtain k where "lim = 65536 * k" ..
  then show ?thesis by (simp add: add.assoc)
qed

lemma mod_eq_diff_iff:
  assumes "0 < nx" "nx \<le> (lim::nat)"
  shows "lim mod nx = lim - nx \<longleftrightarrow> lim < 2 * nx"
proof
  assume "lim mod nx = lim - nx"
  moreover have "lim mod nx < nx" using assms(1) by simp
  ultimately show "lim < 2 * nx" using assms(2) by arith
next
  assume "lim < 2 * nx"
  with assms(2) have "lim - nx < nx" by arith
  then have "(lim - nx) mod nx = lim - nx" by simp
  with assms(2) show "lim mod nx = lim - nx" by (simp add: le_mod_geq)
qed

lemma chunk_layout:
  assumes "unat (c :: u64) * 1024 + 8 < 2 ^ 64"
  shows "checked_mul c 1024 = Some (c * 1024)"
    and "unat (c * 1024) = unat c * 1024"
    and "from_size_align (c * 1024) size_of_usize = Inr \<lparr>l_size = c * 1024, l_align = 8\<rparr>"
    and "aligned_size \<lparr>l_size = c * 1024, l_align = 8 :: u64\<rparr> = c * 1024"
proof -
  from assms have lt: "unat c * unat (1024 :: u64) < 2 ^ LENGTH(64)" by simp
  then show "checked_mul c 1024 = Some (c * 1024)" by (rule checked_mul_SomeI)
  from unat_mult_no_overflow [OF lt] show u: "unat (c * 1024) = unat c * 1024" by simp
  with assms have "unat (c * 1024) + 8 \<le> 2 ^ 64" by simp
  then show "from_size_align (c * 1024) size_of_usize = Inr \<lparr>l_size = c * 1024, l_align = 8\<rparr>"
    by (rule usize_layout)
  have "layout_ok \<lparr>l_size = c * 1024, l_align = 8 :: u64\<rparr>"
    using assms u by (simp add: layout_ok_iff)
  from aligned_size_multiple [OF this] show "aligned_size \<lparr>l_size = c * 1024, l_align = 8 :: u64\<rparr> = c * 1024"
    by (simp add: u)
qed

lemma le_ceil_page: "n \<le> (n + 65535) div 65536 * (65536::nat)"
proof -
  have "n + 65535 = (n + 65535) div 65536 * 65536 + (n + 65535) mod 65536" by simp
  moreover have "(n + 65535) mod 65536 < (65536::nat)" by simp
  ultimately show ?thesis by linarith
qed

lemma test_alloc_new_page:
  assumes "\<not> unat (next s) + unat (aligned_size l) \<le> unat (upper_limit s)"
    and "unat (next s) + unat (aligned_size l) < 2 ^ 64"
    and "required_pages (aligned_size l) = Some p"
    and "unat (upper_limit s) + unat p * 65536 < 2 ^ 64"
  shows "test_alloc s l = Some (Some (upper_limit s),
           \<lparr>next = upper_limit s + aligned_size l, upper_limit = upper_limit s + p * PAGE_SIZE\<rparr>)"
  using assms by (simp add: test_alloc_def alloc_nat_eq request_pages_test_Inr)

lemma chunks_loop_head:
  fixes inner :: "u64 inner_alloc"
  assumes lim: "unat (upper_limit inner) = (unat (next inner) + 65535) div 65536 * 65536"
    and bud: "unat (upper_limit inner) + unat c * 1024 + 65536 < 2 ^ 62"
  shows "\<exists>pages. required_pages (next inner) = Some pages \<and>
           checked_mul pages PAGE_SIZE = Some (upper_limit inner)"
    and "checked_add (next inner) (c * 1024) = Some (next inner + c * 1024)"
    and "upper_limit inner < next inner + c * 1024 \<longleftrightarrow>
           unat (upper_limit inner) < unat (next inner) + unat c * 1024"
proof -
  from bud have "unat c * 1024 + 8 < 2 ^ 64" by simp
  note L = chunk_layout [OF this]
  from lim bud have "unat (next inner) + 65535 < 2 ^ LENGTH(64)" by simp
  then obtain pages where p: "required_pages (next inner) = Some pages"
    by (auto simp: required_pages_Some_iff)
  from required_pages_unat [OF _ p] required_pages_mul(3) [OF _ p] lim
  have "unat (pages * PAGE_SIZE) = unat (upper_limit inner)" by simp
  then have "pages * PAGE_SIZE = upper_limit inner" by (rule word_eq_unatI)
  with required_pages_mul(1) [OF _ p] p
  show "\<exists>pages. required_pages (next inner) = Some pages \<and>
      checked_mul pages PAGE_SIZE = Some (upper_limit inner)" by simp
  from lim bud le_ceil_page [of "unat (next inner)"]
  have lt: "unat (next inner) + unat (c * 1024) < 2 ^ LENGTH(64)" by (simp add: L)
  then show "checked_add (next inner) (c * 1024) = Some (next inner + c * 1024)"
    by (rule checked_add_SomeI)
  from unat_add_no_overflow [OF lt]
  show "upper_limit inner < next inner + c * 1024 \<longleftrightarrow>
      unat (upper_limit inner) < unat (next inner) + unat c * 1024"
    by (simp add: word_less_nat_alt L)
qed

lemma chunks_loop_totals:
  assumes "unat (R :: u64) + unat c * 1024 + unat F + 65535 < 2 ^ 64"
  shows "checked_add R (c * 1024) = Some (R + c * 1024)"
    and "checked_add (R + c * 1024) F = Some (R + c * 1024 + F)"
    and "y = R + c * 1024 + F \<longleftrightarrow> unat y = unat R + unat c * 1024 + unat F"
    and "\<exists>pr. required_pages (R + c * 1024 + F) = Some pr \<and>
           checked_mul pr PAGE_SIZE = Some (pr * PAGE_SIZE) \<and>
           (\<forall>x. x = pr * PAGE_SIZE \<longleftrightarrow>
              unat x = (unat R + unat c * 1024 + unat F + 65535) div 65536 * 65536)"
proof -
  from assms have "unat c * 1024 + 8 < 2 ^ 64" by simp
  note L = chunk_layout [OF this]
  from assms have "unat R + unat (c * 1024) < 2 ^ LENGTH(64)" by (simp add: L)
  then have uR: "unat (R + c * 1024) = unat R + unat c * 1024"
    and "checked_add R (c * 1024) = Some (R + c * 1024)"
    by (simp_all add: checked_add_SomeI unat_add_no_overflow L)
  then show "checked_add R (c * 1024) = Some (R + c * 1024)" by simp
  from assms have lt: "unat (R + c * 1024) + unat F < 2 ^ LENGTH(64)" by (simp add: uR)
  then show "checked_add (R + c * 1024) F = Some (R + c * 1024 + F)"
    by (rule checked_add_SomeI)
  from unat_add_no_overflow [OF lt]
  have u: "unat (R + c * 1024 + F) = unat R + unat c * 1024 + unat F" by (simp add: uR)
  then show "y = R + c * 1024 + F \<longleftrightarrow> unat y = unat R + unat c * 1024 + unat F"
    by (simp add: word_unat_eq_iff)
  from assms u obtain pr where pr: "required_pages (R + c * 1024 + F) = Some pr"
    by (auto simp: required_pages_Some_iff)
  from required_pages_unat [OF _ pr] required_pages_mul(3) [OF _ pr]
  have "\<forall>x. x = pr * PAGE_SIZE \<longleftrightarrow>
      unat x = (unat R + unat c * 1024 + unat F + 65535) div 65536 * 65536"
    by (simp add: word_unat_eq_iff u)
  moreover from required_pages_mul(1) [OF _ pr]
  have "checked_mul pr PAGE_SIZE = Some (pr * PAGE_SIZE)" by simp
  ultimately show "\<exists>pr. required_pages (R + c * 1024 + F) = Some pr \<and>
      checked_mul pr PAGE_SIZE = Some (pr * PAGE_SIZE) \<and>
      (\<forall>x. x = pr * PAGE_SIZE \<longleftrightarrow>
         unat x = (unat R + unat c * 1024 + unat F + 65535) div 65536 * 65536)"
    using pr by blast
qed

lemma chunks_loop_plain:
  fixes inner :: "u64 inner_alloc"
  assumes lim: "unat (upper_limit inner) = (unat (next inner) + 65535) div 65536 * 65536"
    and bud: "unat (upper_limit inner) + unat c * 1024 + 65536 < 2 ^ 62"
    and RF: "unat R + unat F \<le> unat (upper_limit inner)"
    and ta: "test_alloc inner \<lparr>l_size = c * 1024, l_align = 8\<rparr> = Some (Some a, inner')"
    and plain: "\<not> (unat (upper_limit inner) < unat (next inner) + unat c * 1024 \<and> next inner \<noteq> 0)"
  shows "chunks_loop (c # v) (inner, R, E, F) =
     (if a = E \<and>
         unat (upper_limit inner') = (unat R + unat c * 1024 + unat F + 65535) div 65536 * 65536 \<and>
         unat (next inner') = unat R + unat c * 1024 + unat F
      then chunks_loop v (inner', R + c * 1024, R + c * 1024 + F, F) else None)"
proof -
  from bud have "unat c * 1024 + 8 < 2 ^ 64" by simp
  note L = chunk_layout [OF this]
  note head = chunks_loop_head [OF lim bud]
  from head(1) obtain pages where pg: "required_pages (next inner) = Some pages"
    "checked_mul pages PAGE_SIZE = Some (upper_limit inner)" by blast
  from RF bud have "unat R + unat c * 1024 + unat F + 65535 < 2 ^ 64" by simp
  note tot = chunks_loop_totals [OF this]
  from tot(4) obtain pr where pr: "required_pages (R + c * 1024 + F) = Some pr"
    "checked_mul pr PAGE_SIZE = Some (pr * PAGE_SIZE)"
    "\<And>x. x = pr * PAGE_SIZE \<longleftrightarrow>
       unat x = (unat R + unat c * 1024 + unat F + 65535) div 65536 * 65536" by blast
  show ?thesis
    by (simp add: plain L pg head(2,3) ta tot(1,2,3) pr assert_eq_def unwrap_ok_def Let_def)
qed

lemma chunks_loop_frag:
  fixes inner :: "u64 inner_alloc"
  assumes lim: "unat (upper_limit inner) = (unat (next inner) + 65535) div 65536 * 65536"
    and bud: "unat (upper_limit inner) + unat c * 1024 + 65536 < 2 ^ 62"
    and RF: "unat R + unat F \<le> unat (upper_limit inner)"
    and ta: "test_alloc inner \<lparr>l_size = c * 1024, l_align = 8\<rparr> = Some (Some a, inner')"
    and cross: "unat (upper_limit inner) < unat (next inner) + unat c * 1024" "next inner \<noteq> 0"
    and F': "F' = F + upper_limit inner mod next inner"
  shows "chunks_loop (c # v) (inner, R, E, F) =
     (if a = upper_limit inner \<and>
         unat (upper_limit inner') = (unat R + unat c * 1024 + unat F' + 65535) div 65536 * 65536 \<and>
         unat (next inner') = unat R + unat c * 1024 + unat F'
      then chunks_loop v (inner', R + c * 1024, R + c * 1024 + F', F') else None)"
    and "unat F' = unat F + unat (upper_limit inner) mod unat (next inner)"
proof -
  from bud have "unat c * 1024 + 8 < 2 ^ 64" by simp
  note L = chunk_layout [OF this]
  note head = chunks_loop_head [OF lim bud]
  have m: "unat (upper_limit inner mod next inner) = unat (upper_limit inner) mod unat (next inner)"
    by (simp add: unat_mod)
  have le: "unat (upper_limit inner) mod unat (next inner) \<le> unat (upper_limit inner)" by simp
  with RF bud have lt: "unat F + unat (upper_limit inner mod next inner) < 2 ^ LENGTH(64)"
    unfolding m by (simp del: mod_less_eq_dividend)
  from unat_add_no_overflow [OF lt]
  show uF: "unat F' = unat F + unat (upper_limit inner) mod unat (next inner)"
    by (simp add: F' m)
  from lt have frag: "checked_add F (upper_limit inner mod next inner) = Some F'"
    unfolding F' by (rule checked_add_SomeI)
  from RF bud le have "unat R + unat c * 1024 + unat F' + 65535 < 2 ^ 64"
    unfolding uF by (simp del: mod_less_eq_dividend)
  note tot = chunks_loop_totals [OF this]
  from head(1) obtain pages where pg: "required_pages (next inner) = Some pages"
    "checked_mul pages PAGE_SIZE = Some (upper_limit inner)" by blast
  from tot(4) obtain pr where pr: "required_pages (R + c * 1024 + F') = Some pr"
    "checked_mul pr PAGE_SIZE = Some (pr * PAGE_SIZE)"
    "\<And>x. x = pr * PAGE_SIZE \<longleftrightarrow>
       unat x = (unat R + unat c * 1024 + unat F' + 65535) div 65536 * 65536" by blast
  show "chunks_loop (c # v) (inner, R, E, F) =
     (if a = upper_limit inner \<and>
         unat (upper_limit inner') = (unat R + unat c * 1024 + unat F' + 65535) div 65536 * 65536 \<and>
         unat (next inner') = unat R + unat c * 1024 + unat F'
      then chunks_loop v (inner', R + c * 1024, R + c * 1024 + F', F') else None)"
    by (simp add: cross L pg head(2,3) checked_rem_def frag ta tot(1,2,3) pr assert_eq_def
        unwrap_ok_def Let_def)
qed

lemma chunks_invD:
  assumes "chunks_inv (inner, R, E, F)"
  shows "unat (next inner) = unat R + unat F" and "E = next inner"
    and "unat (upper_limit inner) = (unat (next inner) + 65535) div 65536 * 65536"
    and "unat (next inner) \<le> unat (upper_limit inner)"
    and "65536 dvd unat (upper_limit inner)"
  using assms le_ceil_page [of "unat (next inner)"] by (simp_all add: chunks_inv_def)

lemma chunks_loop_fit:
  assumes inv: "chunks_inv (inner, R, E, F)"
    and bud: "unat (upper_limit inner) + unat c * 1024 + 65536 < 2 ^ 62"
    and fit: "unat (next inner) + unat c * 1024 \<le> unat (upper_limit inner)"
    and st': "st' = (inner\<lparr>next := next inner + c * 1024\<rparr>, R + c * 1024, R + c * 1024 + F, F)"
  shows "chunks_loop (c # v) (inner, R, E, F) = chunks_loop v st'"
    and "chunks_inv st'"
    and "unat (next (fst st')) = unat (next inner) + unat c * 1024"
    and "upper_limit (fst st') = upper_limit inner"
proof -
  note I = chunks_invD [OF inv]
  from bud have "unat c * 1024 + 8 < 2 ^ 64" by simp
  note L = chunk_layout [OF this]
  from fit I(1) have RF: "unat R + unat F \<le> unat (upper_limit inner)" by simp
  from fit have u: "unat (next inner + c * 1024) = unat (next inner) + unat c * 1024"
    using unat_add_bounded [of "next inner" "c * 1024" "upper_limit inner"] by (simp add: L)
  from fit I(1) have uR: "unat (R + c * 1024) = unat R + unat c * 1024"
    using unat_add_bounded [of R "c * 1024" "upper_limit inner"] by (simp add: L)
  from fit I(1) have uT: "unat (R + c * 1024 + F) = unat R + unat c * 1024 + unat F"
    using unat_add_bounded [of "R + c * 1024" F "upper_limit inner"] by (simp add: uR)
  have ceil: "(unat R + unat c * 1024 + unat F + 65535) div 65536 * 65536 = unat (upper_limit inner)"
    using ceil_page_fit [of "unat (next inner)" "unat c * 1024"] fit I(1,3) by (simp add: ac_simps)
  from fit have ta: "test_alloc inner \<lparr>l_size = c * 1024, l_align = 8\<rparr> =
      Some (Some (next inner), inner\<lparr>next := next inner + c * 1024\<rparr>)"
    using test_alloc_fits [of inner "\<lparr>l_size = c * 1024, l_align = 8\<rparr>"] by (simp add: L)
  from fit have "\<not> (unat (upper_limit inner) < unat (next inner) + unat c * 1024 \<and> next inner \<noteq> 0)"
    by simp
  from chunks_loop_plain [OF I(3) bud RF ta this, where v = v and E = E]
  show "chunks_loop (c # v) (inner, R, E, F) = chunks_loop v st'"
    by (simp add: I(1,2) u ceil st')
  have "R + c * 1024 + F = next inner + c * 1024"
    by (rule word_eq_unatI) (simp add: uT u I(1))
  moreover have "unat (upper_limit inner) = (unat (next inner) + unat c * 1024 + 65535) div 65536 * 65536"
    using ceil by (simp add: I(1) ac_simps)
  ultimately show "chunks_inv st'"
    using I(1) by (simp add: chunks_inv_def st' u uR uT)
  show "unat (next (fst st')) = unat (next inner) + unat c * 1024" by (simp add: st' u)
  show "upper_limit (fst st') = upper_limit inner" by (simp add: st')
qed


lemma chunks_new_page:
  assumes inv: "chunks_inv (inner, R, E, F)"
    and bud: "unat (upper_limit inner) + unat c * 1024 + 65536 < 2 ^ 62"
    and cross: "unat (upper_limit inner) < unat (next inner) + unat c * 1024"
    and p: "required_pages (c * 1024) = Some p"
  shows "test_alloc inner \<lparr>l_size = c * 1024, l_align = 8\<rparr> = Some (Some (upper_limit inner),
      \<lparr>next = upper_limit inner + c * 1024, upper_limit = upper_limit inner + p * PAGE_SIZE\<rparr>)"
    and "unat (upper_limit inner + c * 1024) = unat (upper_limit inner) + unat c * 1024"
    and "unat (upper_limit inner + p * PAGE_SIZE) =
           unat (upper_limit inner) + (unat c * 1024 + 65535) div 65536 * 65536"
    and "unat (upper_limit inner + p * PAGE_SIZE) =
           (unat (upper_limit inner + c * 1024) + 65535) div 65536 * 65536"
proof -
  note I = chunks_invD [OF inv]
  from bud have "unat c * 1024 + 8 < 2 ^ 64" by simp
  note L = chunk_layout [OF this]
  have up: "unat (p * PAGE_SIZE) = (unat c * 1024 + 65535) div 65536 * 65536"
    using required_pages_unat [OF _ p] required_pages_mul(3) [OF _ p] by (simp add: L)
  have "(unat c * 1024 + 65535) div 65536 * 65536 \<le> unat c * 1024 + 65535" by simp
  with bud have room: "unat (upper_limit inner) + unat (p * PAGE_SIZE) < 2 ^ LENGTH(64)"
    by (simp add: up)
  then show ul: "unat (upper_limit inner + p * PAGE_SIZE) =
      unat (upper_limit inner) + (unat c * 1024 + 65535) div 65536 * 65536"
    by (simp add: unat_add_no_overflow up)
  from bud show un: "unat (upper_limit inner + c * 1024) = unat (upper_limit inner) + unat c * 1024"
    by (simp add: unat_add_no_overflow L)
  from ceil_page_next [OF I(5), of "unat c * 1024"]
  show "unat (upper_limit inner + p * PAGE_SIZE) =
      (unat (upper_limit inner + c * 1024) + 65535) div 65536 * 65536"
    by (simp add: ul un)
  from cross bud I(4) p room required_pages_mul(3) [OF _ p]
  show "test_alloc inner \<lparr>l_size = c * 1024, l_align = 8\<rparr> = Some (Some (upper_limit inner),
      \<lparr>next = upper_limit inner + c * 1024, upper_limit = upper_limit inner + p * PAGE_SIZE\<rparr>)"
    using test_alloc_new_page [of inner "\<lparr>l_size = c * 1024, l_align = 8\<rparr>" p]
    by (simp add: L)
qed

lemma chunks_loop_first:
  assumes inv: "chunks_inv (inner, R, E, F)"
    and bud: "unat (upper_limit inner) + unat c * 1024 + 65536 < 2 ^ 62"
    and cross: "unat (upper_limit inner) < unat (next inner) + unat c * 1024"
    and p: "required_pages (c * 1024) = Some p"
    and zero: "next inner = 0"
    and st': "st' = (\<lparr>next = upper_limit inner + c * 1024,
                     upper_limit = upper_limit inner + p * PAGE_SIZE\<rparr>,
                   R + c * 1024, R + c * 1024 + F, F)"
  shows "chunks_loop (c # v) (inner, R, E, F) = chunks_loop v st'" and "chunks_inv st'"
proof -
  note I = chunks_invD [OF inv]
  note N = chunks_new_page [OF inv bud cross p]
  from zero I have z: "upper_limit inner = 0" "R = 0" "F = 0" "E = 0"
    by (simp_all add: unat_eq_zero)
  from I(1,4) have RF: "unat R + unat F \<le> unat (upper_limit inner)" by simp
  from chunks_loop_plain [OF I(3) bud RF N(1), where v = v and E = E] zero z N(2,3)
  show "chunks_loop (c # v) (inner, R, E, F) = chunks_loop v st'" by (simp add: st')
  from z N(2,3) show "chunks_inv st'" by (simp add: chunks_inv_def st')
qed

lemma chunks_loop_later:
  assumes inv: "chunks_inv (inner, R, E, F)"
    and bud: "unat (upper_limit inner) + unat c * 1024 + 65536 < 2 ^ 62"
    and cross: "unat (upper_limit inner) < unat (next inner) + unat c * 1024"
    and p: "required_pages (c * 1024) = Some p"
    and pos: "next inner \<noteq> 0"
    and F': "F' = F + upper_limit inner mod next inner"
    and st': "st' = (\<lparr>next = upper_limit inner + c * 1024,
                     upper_limit = upper_limit inner + p * PAGE_SIZE\<rparr>,
                   R + c * 1024, R + c * 1024 + F', F')"
  shows "chunks_loop (c # v) (inner, R, E, F) =
           (if unat (upper_limit inner) < 2 * unat (next inner) then chunks_loop v st' else None)"
    and "unat (upper_limit inner) < 2 * unat (next inner) \<Longrightarrow> chunks_inv st'"
proof -
  note I = chunks_invD [OF inv]
  note N = chunks_new_page [OF inv bud cross p]
  from I(1,4) have RF: "unat R + unat F \<le> unat (upper_limit inner)" by simp
  from bud have "unat c * 1024 + 8 < 2 ^ 64" by simp
  note L = chunk_layout(2) [OF this]
  note step = chunks_loop_frag(1) [OF I(3) bud RF N(1) cross pos F', where v = v and E = E]
    chunks_loop_frag(2) [OF I(3) bud RF N(1) cross pos F']
  from pos have "0 < unat (next inner)" by (simp add: unat_gt_0)
  from mod_eq_diff_iff [OF this I(4)] I(1,4)
  have ok: "unat (upper_limit inner) + unat c * 1024 = unat R + unat c * 1024 + unat F' \<longleftrightarrow>
      unat (upper_limit inner) < 2 * unat (next inner)"
    by (auto simp: step(2))
  have lim': "(unat R + unat c * 1024 + unat F' + 65535) div 65536 * 65536 =
      unat (upper_limit inner) + (unat c * 1024 + 65535) div 65536 * 65536"
    if "unat (upper_limit inner) + unat c * 1024 = unat R + unat c * 1024 + unat F'"
    using ceil_page_next [OF I(5), of "unat c * 1024"] unfolding that by simp
  from step(1) ok lim' show "chunks_loop (c # v) (inner, R, E, F) =
      (if unat (upper_limit inner) < 2 * unat (next inner) then chunks_loop v st' else None)"
    by (auto simp: st' N(2,3))
  assume "unat (upper_limit inner) < 2 * unat (next inner)"
  with ok have eq: "unat (upper_limit inner) + unat c * 1024 = unat R + unat c * 1024 + unat F'"
    by simp
  with bud have "unat R + unat c * 1024 + unat F' + 65535 < 2 ^ 64" by simp
  note tot = chunks_loop_totals(1,3) [OF this]
  have "upper_limit inner + c * 1024 = R + c * 1024 + F'"
    by (rule tot(2) [THEN iffD2]) (simp add: N(2) eq)
  then have "R + c * 1024 + F' = upper_limit inner + c * 1024" by (rule sym)
  moreover from eq checked_add_unat [OF tot(1)] L
  have "unat (upper_limit inner + c * 1024) = unat (R + c * 1024) + unat F'"
    by (simp add: N(2))
  ultimately show "chunks_inv st'" using N(4) by (simp add: chunks_inv_def st')
qed

lemma chunks_loop_passes_iff:
  assumes "chunks_inv st"
    and "unat (upper_limit (fst st)) + sum_list (map (\<lambda>c. unat c * 1024 + 65536) v) < 2 ^ 62"
  shows "(\<exists>st'. chunks_loop v st = Some st') \<longleftrightarrow>
     crossings_ok (unat (next (fst st))) (unat (upper_limit (fst st))) (map (\<lambda>c. unat c * 1024) v)"
  using assms
proof (induction v arbitrary: st)
  case Nil
  show ?case by (cases st) simp
next
  case (Cons c v)
  obtain inner R E F where st: "st = (inner, R, E, F)" by (cases st) auto
  from Cons.prems have inv: "chunks_inv (inner, R, E, F)"
    and bud: "unat (upper_limit inner) + unat c * 1024 + 65536 < 2 ^ 62"
    by (simp_all add: st)
  show ?case
  proof (cases "unat (next inner) + unat c * 1024 \<le> unat (upper_limit inner)")
    case True
    note fit = chunks_loop_fit [OF inv bud True refl]
    from Cons.prems have "unat (upper_limit inner) +
        sum_list (map (\<lambda>c. unat c * 1024 + 65536) v) < 2 ^ 62" by (simp add: st)
    from Cons.IH [OF fit(2)] this True show ?thesis
      by (simp add: st fit(1) fit(3,4) [simplified] del: chunks_loop.simps)
  next
    case False
    from bud have "unat c * 1024 + 8 < 2 ^ 64" by simp
    from chunk_layout(2) [OF this] bud obtain p where p: "required_pages (c * 1024) = Some p"
      by (auto simp: required_pages_Some_iff)
    from False have cross: "unat (upper_limit inner) < unat (next inner) + unat c * 1024" by simp
    have "(unat c * 1024 + 65535) div 65536 * 65536 \<le> unat c * 1024 + 65535" by simp
    with Cons.prems have room: "unat (upper_limit inner) + (unat c * 1024 + 65535) div 65536 * 65536 +
        sum_list (map (\<lambda>c. unat c * 1024 + 65536) v) < 2 ^ 62" by (simp add: st)
    note N = chunks_new_page(2,3) [OF inv bud cross p]
    show ?thesis
    proof (cases "next inner = 0")
      case True
      note cr = chunks_loop_first [OF inv bud cross p True refl]
      from Cons.IH [OF cr(2)] room False True show ?thesis
        by (simp add: st cr(1) N del: chunks_loop.simps)
    next
      case pos: False
      note cr = chunks_loop_later [OF inv bud cross p pos refl refl]
      from Cons.IH [OF cr(2)] room False pos show ?thesis
        by (auto simp: st cr(1) N unat_eq_zero simp del: chunks_loop.simps)
    qed
  qed
qed

lemma sum_list_bounded:
  "list_all (\<lambda>x. f x \<le> (b::nat)) xs \<Longrightarrow> sum_list (map f xs) \<le> length xs * b"
  by (induction xs) auto

text \<open>C37: the test \<open>can_alloc_many_different_sized_chunks\<close>, run on any list
  of fewer than \<open>2^20\<close> chunks of less than \<open>2^20\<close> KiB each, passes exactly
  when, at every chunk that does not fit below \<open>upper_limit\<close> while \<open>next\<close>
  is not zero, \<open>next\<close> is more than half of \<open>upper_limit\<close>. The allocator
  places such a chunk at the limit in either case; it is the expectation of the
  test that is off otherwise, because it computes the bytes lost in the page
  as \<^verbatim>\<open>current_page_limit % inner.next\<close>. The list in the source meets the
  condition; 10 KiB followed by 60 KiB does not.\<close>

theorem chunks_test_passes_iff:
  assumes "list_all (\<lambda>c. unat c < 2 ^ 20) v" and "length v < 2 ^ 20"
  shows "can_alloc_many_different_sized_chunks_of v = Some () \<longleftrightarrow>
           crossings_ok 0 0 (map (\<lambda>c. unat c * 1024) v)"
proof -
  from assms(1) have "list_all (\<lambda>c. unat c * 1024 + 65536 \<le> 2 ^ 31) v"
    by (rule list.pred_mono_strong) simp
  from sum_list_bounded [OF this] assms(2)
  have "sum_list (map (\<lambda>c. unat c * 1024 + 65536) v) \<le> 2 ^ 20 * 2 ^ 31"
    by (meson le_trans less_imp_le mult_le_mono1)
  then have "unat (upper_limit (fst (new :: u64 inner_alloc, 0 :: u64, 0 :: u64, 0 :: u64))) +
      sum_list (map (\<lambda>c. unat c * 1024 + 65536) v) < 2 ^ 62" by simp
  moreover have "chunks_inv (new, 0, 0, 0)" by (simp add: chunks_inv_def)
  ultimately show ?thesis
    using chunks_loop_passes_iff [of "(new, 0, 0, 0)" v]
    by (auto simp: can_alloc_many_different_sized_chunks_of_def bind_eq_Some_iff)
qed

lemma test_not_passed_iff: "t \<noteq> Some () \<longleftrightarrow> t = (None :: test)"
  by (cases t) auto

theorem chunks_test_passes_iff_witness:
  "can_alloc_many_different_sized_chunks = Some () \<and>
   can_alloc_many_different_sized_chunks_of [10, 60] = None"
proof -
  have "can_alloc_many_different_sized_chunks_of [32, 30, 6, 20, 20, 20, 10, 130] = Some ()"
    using chunks_test_passes_iff [of "[32, 30, 6, 20, 20, 20, 10, 130]"] by simp
  moreover have "can_alloc_many_different_sized_chunks_of [10, 60] = None"
    using chunks_test_passes_iff [of "[10, 60]"] by (simp add: test_not_passed_iff)
  ultimately show ?thesis by (simp add: can_alloc_many_different_sized_chunks_def)
qed

end
