(* ===== verification/Spec2Isabelle.thy ===== *)
theory Spec2Isabelle
  imports Bump_Alloc Bump_Spec Wasm_Alloc Shared_Memory Bump_Align Global_Alloc Zeroed_Memory
    Bump_Tests
begin

text \<open>
  Verification of the ink! bump allocator, \<^verbatim>\<open>src/crates/allocator/src/bump.rs\<close>.

  \<^bold>\<open>The program.\<close> The allocator serves a WebAssembly module from its linear
  memory. Its state (\<^verbatim>\<open>InnerAlloc\<close>) is two addresses: \<open>next\<close>, where the next
  region starts, and \<open>upper_limit\<close>, the end of the memory it owns.
  \<^verbatim>\<open>InnerAlloc::alloc\<close> pads the size of a request to its alignment and
  serves it from \<open>next\<close> if the padded size fits below \<open>upper_limit\<close>;
  otherwise it computes the number of 64 KiB pages the padded size needs
  (\<^verbatim>\<open>required_pages\<close>), asks \<^verbatim>\<open>request_pages\<close> for them, and
  places the request at the base of the granted pages, abandoning what was
  left below the old limit. All address arithmetic is overflow-checked, and a
  failed check makes the call return \<^verbatim>\<open>None\<close>. \<^verbatim>\<open>request_pages\<close> exists in
  three variants selected by \<^verbatim>\<open>cfg_if\<close>: under test it grants pages that
  start at \<open>upper_limit\<close>, with feature \<^verbatim>\<open>std\<close> it panics, on wasm32 it
  grows the linear memory with \<^verbatim>\<open>memory.grow\<close>. \<^verbatim>\<open>BumpAllocator\<close> wraps a
  static \<^verbatim>\<open>InnerAlloc\<close> as the \<^verbatim>\<open>GlobalAlloc\<close> of the process and never
  frees. The file ends with six unit tests and two quickcheck properties.

  \<^bold>\<open>The theories\<close>, in the order of their imports:
  \<^descr>[\<open>Bump_Prelude\<close>] \<^verbatim>\<open>usize\<close> as \<open>'a word\<close> for any length \<open>'a\<close>;
    \<open>checked_add\<close>, \<open>checked_mul\<close>, \<open>checked_div\<close>, \<open>checked_rem\<close> with
    \<open>None\<close> for overflow and division by zero; the panic value; the lemmas
    that read a successful checked operation as arithmetic on \<open>nat\<close>.
  \<^descr>[\<open>Layout\<close>] the request type \<^verbatim>\<open>core::alloc::Layout\<close> of the Rust core
    library: the record \<open>layout\<close>, the validity rule of
    \<^verbatim>\<open>Layout::from_size_align\<close>, and \<open>pad_to_align\<close> with the bit-mask
    rounding of \<^verbatim>\<open>padding_needed_for\<close>. Modelled from the library's
    documented behaviour, since its code is not part of this repository. The
    validity rule is the one of the library at the time of the source (the
    size rounded up to the alignment is representable); later versions bound
    it by the largest \<^verbatim>\<open>isize\<close>. \<open>pad_to_align\<close> is total: the library's
    version unwraps a checked result, which \<open>pad_to_align_unwrap\<close> shows to
    succeed, with the same value, on every valid layout. The lemmas show that
    the mask computes the next multiple of the alignment (\<open>round_up_nat\<close>)
    and that padding a valid layout does not wrap around.
  \<^descr>[\<open>Inner_Alloc\<close>] \<^verbatim>\<open>PAGE_SIZE\<close>, the record \<open>inner_alloc\<close> for
    \<^verbatim>\<open>InnerAlloc\<close>, \<open>new\<close>, and the invariant \<open>inner_inv\<close>
    (\<open>next \<le> upper_limit\<close>).
  \<^descr>[\<open>Page_Source\<close>] the interface \<open>page_source\<close> (allocator state, host
    state and page count to a panic or an optional base address with the new
    host state) and its three implementations \<open>request_pages_test\<close>,
    \<open>request_pages_std\<close>, \<open>request_pages_wasm32\<close>; \<open>cfg_select\<close> for
    the order of the \<^verbatim>\<open>cfg_if\<close> chain and \<open>request_pages\<close> for the
    variant it selects; the linear memory \<open>wasm_memory\<close> (size and maximum
    in pages) with \<open>memory_grow\<close>. A page source reads the allocator state
    and returns a new host state: the method of the source takes
    \<^verbatim>\<open>&mut self\<close>, and none of its three bodies assigns to a field. The
    contract \<open>ps_fresh J rp\<close> says that under a coupling \<open>J\<close> of
    \<open>upper_limit\<close> with the host, granted pages start at or above
    \<open>upper_limit\<close> and the coupling holds again afterwards; it is proved of
    the three variants, for wasm32 with \<open>wasm_coupled\<close> (\<open>upper_limit\<close> is
    within the memory, whose maximum is at most 65536 pages).
  \<^descr>[\<open>Bump_Alloc\<close>] \<open>required_pages\<close> and \<open>alloc\<close>, the latter over any
    page source, branch by branch as in the code, the \<^verbatim>\<open>?\<close> operators as
    returns of \<open>None\<close> and a panic of the page source propagated. One lemma
    per branch (\<open>alloc_fits\<close>, \<open>alloc_grow\<close>, \<open>alloc_exhausted\<close>, ...), the
    case rule \<open>alloc_Inr_cases\<close> that the other theories use, and the
    theorems on one call: the invariant, the result and the new state when the
    request fits and when pages are requested, that a failed call leaves the
    state unchanged, that the region handed out does not wrap around and ends
    at the new \<open>next\<close>, \<open>required_pages\<close> as a ceiling division, where a
    panic can come from, and the complete behaviour with the std and the test
    page source.
  \<^descr>[\<open>Bump_Spec\<close>] the specification of bump allocation over natural
    numbers: \<open>bump_step\<close> (fit, grow at a base at or above the limit, refuse)
    and \<open>bump_run\<close>, with monotonicity and disjointness of the regions of a
    run proved by rule induction; \<open>alloc_run\<close>, a sequence of calls of
    \<open>alloc\<close> on one allocator; and the refinement: every call of \<open>alloc\<close>
    with a page source satisfying \<open>ps_fresh\<close> is a \<open>bump_step\<close>, so the
    regions handed out by a run are pairwise disjoint and ordered. The
    headroom stays below one page over any run.
  \<^descr>[\<open>Wasm_Alloc\<close>] the allocator with the wasm32 page source: regions lie
    inside the linear memory, regions of positive size lie above the memory
    the module had at the start, the request that would reach the top of
    the address space fails after growing the memory, and the complete
    behaviour of \<open>alloc\<close> in terms of the size and the maximum of the
    memory.
  \<^descr>[\<open>Shared_Memory\<close>] runs of \<open>alloc\<close> between which an environment
    changes the host state (\<open>shared_run\<close>, an inductive relation with a
    rule for a call and a rule for a step of the environment). With the
    relation \<open>wasm_rely\<close> the environment is a host that refuses to grow
    the memory when it pleases and a module that grows it on its own; the
    regions handed out are still disjoint, above the initial memory and
    inside the final one.
  \<^descr>[\<open>Bump_Align\<close>] how far start addresses are aligned: \<open>alloc\<close> never
    rounds \<open>next\<close>, so alignment holds when a common multiple of the
    alignments divides every padded size; that after a request of one byte
    on a fresh allocator a request of any larger alignment gets an address
    that misses it (\<open>alloc_run_misaligned\<close>); and that \<open>upper_limit\<close>
    moves by whole pages.
  \<^descr>[\<open>Global_Alloc\<close>] the static \<^verbatim>\<open>INNER\<close> with the host as the record
    \<open>process\<close>; \<open>global_alloc\<close>, \<open>global_alloc_zeroed\<close>, \<open>global_dealloc\<close>
    for the methods of \<^verbatim>\<open>GlobalAlloc\<close>; the calls as the datatype \<open>call\<close>
    with \<open>global_step\<close> and \<open>global_run\<close>, which stand for the caller
    choosing a method and have no code of their own. The theorem shows that
    \<^verbatim>\<open>dealloc\<close> has no effect on any sequence of calls.
  \<^descr>[\<open>Zeroed_Memory\<close>] the caller in the model: a world of the process,
    the regions the caller owns and the addresses written so far, with events
    for calls and for writes. As long as the caller writes only where it may,
    every region returned on wasm32 is free of written addresses, which is
    the reason the source gives for implementing \<^verbatim>\<open>alloc_zeroed\<close> by
    \<^verbatim>\<open>alloc\<close>.
  \<^descr>[\<open>Spec2Isabelle\<close>] this theory: a sequence of \<^verbatim>\<open>GlobalAlloc\<close> calls
    is a run of \<open>alloc\<close> over the requests of its allocating calls
    (\<open>global_run_eq\<close>), so the non-null pointers a process receives
    designate disjoint regions, on wasm32 inside the memory obtained since
    the start. The last section is about the null pointer: on wasm32 it
    stands for a refused request exactly when the memory is not empty at the
    start; with an empty memory the first allocation succeeds at address
    zero and is returned as null. The section after it is about the cost of
    never freeing: the regions behind all pointers returned fit in the
    memory grown since the start, so a process that requests more than the
    memory may grow by is refused, whatever it deallocates.
  \<^descr>[\<open>Bump_Tests\<close>] the bodies of the unit tests and of the two quickcheck
    properties as computations in the option monad (\<open>None\<close> is a failed
    assertion), at the 64-bit \<^verbatim>\<open>usize\<close> of the test host. Evaluating
    the unit tests checks the model against the expectations the repository
    states; the quickcheck properties are proved for every input, not for
    sampled ones, the loop of \<open>can_alloc_a_foobarbaz\<close> for every layout
    of its struct, and the test of many chunks for every list of sizes: it
    passes exactly when \<open>crossings_ok\<close> holds of the list, which says when
    the remainder the test takes for the bytes lost in a page is the
    distance to the limit.

  \<^bold>\<open>Choices.\<close> The width of \<^verbatim>\<open>usize\<close> is a type variable, and the theorems
  assume \<open>16 < LENGTH('a)\<close>, which is what makes the page size
  representable: they hold of the 32-bit target and of the 64-bit test host
  alike. Addresses are read as natural numbers with \<open>unat\<close> and every
  theorem about a sum of addresses says that it does not wrap around. No
  definition needs fuel: \<open>alloc\<close> has no loop, and the loops of the tests
  run over the finite lists of the source. A panic is the value
  \<open>Inl Unreachable\<close>; \<open>global_run\<close> stops at the first one. The theorem
  on the test of many chunks bounds the list (fewer than \<open>2^20\<close> chunks of
  less than \<open>2^20\<close> KiB), which keeps every sum the test computes below
  \<open>2^62\<close>, so that none of its overflow checks at 64 bits can fail.

  \<^bold>\<open>Not modelled.\<close> The values in memory: a pointer is its address, and
  \<open>Zeroed_Memory\<close> records which addresses have been written, not what
  they hold; that a page is zero when \<^verbatim>\<open>memory.grow\<close> grants it is the
  guarantee of WebAssembly the source refers to. Concurrency: the static is
  accessed without synchronisation and the model is sequential, as a wasm
  module is. The random generation of inputs by quickcheck and the expansion
  of the \<^verbatim>\<open>cfg_if\<close> macro, which are libraries the file only calls.
  \<open>memory_grow\<close> is deterministic: it fails exactly when the maximum would
  be exceeded, while a WebAssembly host may refuse at any time and other
  code of the module may grow the memory between two calls. The theorems of
  \<open>Wasm_Alloc\<close> and \<open>Zeroed_Memory\<close> and those on wasm32 in this theory
  are relative to this model of the host; the theorems of \<open>Bump_Alloc\<close>,
  \<open>Bump_Spec\<close> and \<open>Bump_Align\<close> do not depend on it, since they hold
  for every page source, or for every one that satisfies \<open>ps_fresh\<close>; and
  \<open>Shared_Memory\<close> proves the safety of the regions for a host and a
  module that interfere between the calls.
\<close>


text \<open>
  The rest of this theory joins the adapter to the theorems on runs of the
  allocator: a sequence of \<^verbatim>\<open>GlobalAlloc\<close> calls is a run of \<open>alloc\<close>
  over the requests of its allocating calls, with the results cast to
  pointers; \<open>served\<close> collects the regions behind the pointers that are not
  null.
\<close>

fun requests :: "'w call list \<Rightarrow> 'w layout list" where
  "requests [] = []"
| "requests (Alloc l # cs) = l # requests cs"
| "requests (Alloc_Zeroed l # cs) = l # requests cs"
| "requests (Dealloc p l # cs) = requests cs"

definition ptr_of :: "'a::len usize option \<Rightarrow> 'a usize" where
  "ptr_of r = (case r of Some a \<Rightarrow> a | None \<Rightarrow> null_mut)"

fun answers :: "'a::len usize call list \<Rightarrow> 'a usize option list \<Rightarrow> 'a usize ret list" where
  "answers [] rs = []"
| "answers (Dealloc p l # cs) rs = Unit # answers cs rs"
| "answers (c # cs) [] = []"
| "answers (c # cs) (r # rs) = Ptr (ptr_of r) # answers cs rs"

section \<open>The adapter is a run of the allocator\<close>

lemma global_alloc_eq:
  "on_result Ptr (global_alloc rp l st) =
     (case alloc rp l (INNER st) (host st) of
        Inl x \<Rightarrow> Inl x
      | Inr (r, s', h') \<Rightarrow> Inr (Ptr (ptr_of r), \<lparr>INNER = s', host = h'\<rparr>))"
  by (simp add: global_alloc_def ptr_of_def split: sum.splits option.splits prod.splits)

lemma global_run_eq:
  "global_run rp cs st =
     (case alloc_run rp (requests cs) (INNER st) (host st) of
        Inl x \<Rightarrow> Inl x
      | Inr (rs, s', h') \<Rightarrow> Inr (answers cs rs, \<lparr>INNER = s', host = h'\<rparr>))"
proof (induction cs arbitrary: st)
  case Nil
  show ?case by simp
next
  case (Cons c cs)
  show ?case
    by (cases c)
      (simp_all add: global_alloc_eq global_alloc_zeroed_def global_dealloc_def Cons.IH
        split: sum.splits prod.splits)
qed

lemma global_run_Inr:
  assumes "global_run rp cs st = Inr (rets, st')"
  obtains rs where "alloc_run rp (requests cs) (INNER st) (host st) = Inr (rs, INNER st', host st')"
    and "rets = answers cs rs"
  using assms unfolding global_run_eq by (auto split: sum.splits prod.splits)

lemma served_answers:
  "length rs = length (requests cs) \<Longrightarrow>
     served cs (answers cs rs) = filter (\<lambda>(a, n). a \<noteq> 0) (regions (trace_of (requests cs) rs))"
proof (induction cs arbitrary: rs)
  case Nil
  show ?case by (simp add: served_def trace_of_def)
next
  case (Cons c cs)
  show ?case
  proof (cases c)
    case (Dealloc p l)
    with Cons show ?thesis by (simp add: served_def)
  next
    case (Alloc l)
    with Cons.prems obtain r rs' where rs: "rs = r # rs'" and len: "length rs' = length (requests cs)"
      by (cases rs) auto
    from Cons.IH [OF len] show ?thesis
      by (cases r) (simp_all add: Alloc rs served_def trace_of_def ptr_of_def null_mut_def unat_eq_zero)
  next
    case (Alloc_Zeroed l)
    with Cons.prems obtain r rs' where rs: "rs = r # rs'" and len: "length rs' = length (requests cs)"
      by (cases rs) auto
    from Cons.IH [OF len] show ?thesis
      by (cases r)
        (simp_all add: Alloc_Zeroed rs served_def trace_of_def ptr_of_def null_mut_def unat_eq_zero)
  qed
qed

text \<open>C11: with a page source that satisfies \<open>ps_fresh\<close>, from a process
  state in which the invariant and the coupling with the host hold: in any
  sequence of \<^verbatim>\<open>GlobalAlloc\<close> calls, allocations and deallocations in any
  order, the regions behind the pointers returned that
  are not null are pairwise disjoint and in increasing order of address, and
  the allocator's invariant and its coupling with the host hold at the end.\<close>

theorem global_run_regions:
  assumes "16 < LENGTH('a::len)" and "ps_fresh J rp"
    and "J (upper_limit (INNER st)) (host st)" and "inner_inv (INNER st)"
    and "global_run rp cs st = Inr (rets, st' :: ('a usize, 'h) process)"
  shows "separated (served cs rets) \<and> sorted (map fst (served cs rets)) \<and>
     inner_inv (INNER st') \<and> J (upper_limit (INNER st')) (host st')"
proof -
  from assms(5) obtain rs
    where run: "alloc_run rp (requests cs) (INNER st) (host st) = Inr (rs, INNER st', host st')"
    and rets: "rets = answers cs rs" by (rule global_run_Inr)
  from alloc_run_sim [OF assms(1,2,3) run]
  have abs: "bump_run (abs_state (INNER st)) (trace_of (requests cs) rs) (abs_state (INNER st'))"
    and J: "J (upper_limit (INNER st')) (host st')" and len: "length rs = length (requests cs)"
    by simp_all
  from assms(4) have inv: "a_inv (abs_state (INNER st))" by simp
  note packed = bump_run_packed [OF abs inv]
  from packed_separated [OF packed] packed_sorted [OF packed]
  have "separated (served cs rets)" "sorted (map fst (served cs rets))"
    by (simp_all add: rets served_answers [OF len] separated_filter sorted_filter)
  with bump_run_inv [OF abs inv] J show ?thesis by simp
qed

theorem global_run_regions_witness:
  "global_run request_pages_test
     [Alloc (layout_new 65535 1), Dealloc 0 (layout_new 65535 1), Alloc_Zeroed (layout_new 2 2),
      Alloc (layout_new 4 4)]
     (process_init () :: (u32, unit) process) =
     Inr ([Ptr null_mut, Unit, Ptr 65536, Ptr 65538],
          \<lparr>INNER = \<lparr>next = 65542, upper_limit = 131072\<rparr>, host = ()\<rparr>) \<and>
   separated [(65536, 2), (65538, 4)]"
proof -
  let ?cs = "[Alloc (layout_new 65535 1), Dealloc 0 (layout_new 65535 1),
      Alloc_Zeroed (layout_new 2 2), Alloc (layout_new 4 4)] :: u32 call list"
  have run: "global_run request_pages_test ?cs (process_init () :: (u32, unit) process) =
     Inr ([Ptr null_mut, Unit, Ptr 65536, Ptr 65538],
          \<lparr>INNER = \<lparr>next = 65542, upper_limit = 131072\<rparr>, host = ()\<rparr>)"
    by (simp add: alloc_eval global_alloc_def global_alloc_zeroed_def global_dealloc_def
        process_init_def null_mut_def)
  have "served ?cs [Ptr null_mut, Unit, Ptr 65536, Ptr 65538] = [(65536, 2), (65538, 4)]"
    by (simp add: served_def null_mut_def layout_defs layout_new_def)
  moreover have "separated (served ?cs [Ptr null_mut, Unit, Ptr 65536, Ptr 65538])"
    using global_run_regions [OF _ ps_fresh_test _ _ run] by (simp add: process_init_def)
  ultimately show ?thesis using run by (simp only: simp_thms)
qed

text \<open>C13: on wasm32, starting from the initial process state, every pointer
  returned that is not null points to a region that lies above the memory the
  module had at the start and inside the memory as it is at the end.\<close>

theorem global_run_wasm32:
  assumes "16 < LENGTH('a::len)" and "wasm_wf m"
    and "global_run request_pages_wasm32 cs (process_init m) =
           Inr (rets, st' :: ('a usize, wasm_memory) process)"
  shows "list_all (\<lambda>(a, n). mem_pages m * 65536 \<le> a \<and> a + n \<le> mem_pages (host st') * 65536)
     (served cs rets)"
proof -
  let ?ls = "requests cs"
  from global_run_Inr [OF assms(3)] obtain rs
    where run: "alloc_run request_pages_wasm32 ?ls new m = Inr (rs, INNER st', host st')"
    and rets: "rets = answers cs rs" by (auto simp: process_init_def)
  from assms(2) have c: "wasm_coupled (upper_limit (new :: 'a usize inner_alloc)) m"
    and g: "wasm_grown m (upper_limit (new :: 'a usize inner_alloc)) m"
    by (simp_all add: wasm_grown_def wasm_coupled_def new_def)
  from alloc_run_sim [OF assms(1) ps_fresh_wasm32 [OF assms(1)] c run]
  have len: "length rs = length ?ls" by simp
  from alloc_run_wasm32_above [OF assms(1) g heap_started_new run]
    alloc_run_wasm32_bounds(1) [OF assms(1) c inner_inv_new run]
  show ?thesis by (auto simp: rets served_answers [OF len] list_all_iff)
qed

theorem global_run_wasm32_witness:
  "global_run request_pages_wasm32 [Alloc (layout_new 0 1), Alloc (layout_new 65535 1),
      Alloc_Zeroed (layout_new 2 2)] (process_init \<lparr>mem_pages = 2, mem_max = 16\<rparr> :: (u32, wasm_memory) process) =
     Inr ([Ptr null_mut, Ptr 131072, Ptr 196608],
          \<lparr>INNER = \<lparr>next = 196610, upper_limit = 262144\<rparr>, host = \<lparr>mem_pages = 4, mem_max = 16\<rparr>\<rparr>) \<and>
   list_all (\<lambda>(a, n). 2 * 65536 \<le> a \<and> a + n \<le> 4 * 65536) [(131072, 65535), (196608 :: nat, 2 :: nat)]"
proof -
  let ?cs = "[Alloc (layout_new 0 1), Alloc (layout_new 65535 1), Alloc_Zeroed (layout_new 2 2)] :: u32 call list"
  let ?m = "\<lparr>mem_pages = 2, mem_max = 16\<rparr>"
  have run: "global_run request_pages_wasm32 ?cs (process_init ?m :: (u32, wasm_memory) process) =
     Inr ([Ptr null_mut, Ptr 131072, Ptr 196608],
          \<lparr>INNER = \<lparr>next = 196610, upper_limit = 262144\<rparr>, host = \<lparr>mem_pages = 4, mem_max = 16\<rparr>\<rparr>)"
    by (simp add: alloc_eval global_alloc_def global_alloc_zeroed_def process_init_def null_mut_def)
  have "served ?cs [Ptr null_mut, Ptr 131072, Ptr 196608] = [(131072, 65535), (196608, 2)]"
    by (simp add: served_def null_mut_def layout_defs layout_new_def)
  moreover have "wasm_wf ?m" by (simp add: wasm_wf_def)
  from global_run_wasm32 [OF _ this run]
  have "list_all (\<lambda>(a, n). 2 * 65536 \<le> a \<and> a + n \<le> 4 * 65536)
      (served ?cs [Ptr null_mut, Ptr 131072, Ptr 196608])" by simp
  ultimately show ?thesis using run by (simp only: simp_thms)
qed


section \<open>The null pointer\<close>

text \<open>
  The adapter casts the address of a successful allocation to a pointer and
  returns the null pointer for a failed one, so an allocation that succeeds
  at address zero looks like a failure. The first theorem says that this
  cannot happen on wasm32 when the module starts with a memory that is not
  empty; the second that it does happen with the first request when the
  memory is empty at the start.
\<close>

text \<open>C33: on wasm32, when the linear memory is not empty at the start, the
  pointers returned by a sequence of \<^verbatim>\<open>GlobalAlloc\<close> calls are the results
  of the allocator on the requests of the allocating calls, and for every
  request of a padded size that is not zero the pointer is null exactly when
  the allocator refused the request.\<close>

theorem global_run_wasm32_null:
  assumes "16 < LENGTH('a::len)" and "wasm_wf m" and "0 < mem_pages m"
    and "global_run request_pages_wasm32 cs (process_init m) =
           Inr (rets, st' :: ('a usize, wasm_memory) process)"
  shows "\<exists>rs. alloc_run request_pages_wasm32 (requests cs) new m = Inr (rs, INNER st', host st') \<and>
     rets = answers cs rs \<and>
     list_all2 (\<lambda>l r. aligned_size l \<noteq> 0 \<longrightarrow> (ptr_of r = null_mut \<longleftrightarrow> r = None)) (requests cs) rs"
proof -
  let ?ls = "requests cs"
  from global_run_Inr [OF assms(4)] obtain rs
    where run: "alloc_run request_pages_wasm32 ?ls new m = Inr (rs, INNER st', host st')"
    and rets: "rets = answers cs rs" by (auto simp: process_init_def)
  from assms(2) have c: "wasm_coupled (upper_limit (new :: 'a usize inner_alloc)) m"
    and g: "wasm_grown m (upper_limit (new :: 'a usize inner_alloc)) m"
    by (simp_all add: wasm_grown_def wasm_coupled_def new_def)
  from alloc_run_sim [OF assms(1) ps_fresh_wasm32 [OF assms(1)] c run]
  have len: "length rs = length ?ls" by simp
  note above = regions_trace_all2 [OF len alloc_run_wasm32_above [OF assms(1) g heap_started_new run]]
  have "list_all2 (\<lambda>l r. aligned_size l \<noteq> 0 \<longrightarrow> (ptr_of r = null_mut \<longleftrightarrow> r = None)) ?ls rs"
  proof (rule list_all2_mono [OF above])
    fix l :: "'a usize layout" and r
    assume *: "\<forall>a. r = Some a \<longrightarrow>
      (case (unat a, unat (aligned_size l)) of (a, n) \<Rightarrow> 0 < n \<or> 0 < a \<longrightarrow> mem_pages m * 65536 \<le> a)"
    show "aligned_size l \<noteq> 0 \<longrightarrow> (ptr_of r = null_mut \<longleftrightarrow> r = None)"
    proof (cases r)
      case None
      then show ?thesis by (simp add: ptr_of_def)
    next
      case (Some a)
      with * assms(3) have "aligned_size l \<noteq> 0 \<longrightarrow> 0 < unat a" by (auto simp: unat_gt_0)
      with Some show ?thesis by (auto simp: ptr_of_def null_mut_def)
    qed
  qed
  with run rets show ?thesis by blast
qed

theorem global_run_wasm32_null_witness:
  "global_run request_pages_wasm32 [Alloc (layout_new 8 8), Alloc (layout_new 131072 1)]
     (process_init \<lparr>mem_pages = 2, mem_max = 3\<rparr> :: (u32, wasm_memory) process) =
     Inr ([Ptr 131072, Ptr null_mut],
          \<lparr>INNER = \<lparr>next = 131080, upper_limit = 196608\<rparr>, host = \<lparr>mem_pages = 3, mem_max = 3\<rparr>\<rparr>) \<and>
   alloc_run request_pages_wasm32 [layout_new 8 8, layout_new 131072 1] (new :: u32 inner_alloc)
       \<lparr>mem_pages = 2, mem_max = 3\<rparr> =
     Inr ([Some 131072, None], \<lparr>next = 131080, upper_limit = 196608\<rparr>, \<lparr>mem_pages = 3, mem_max = 3\<rparr>)"
proof -
  let ?cs = "[Alloc (layout_new 8 8), Alloc (layout_new 131072 1)] :: u32 call list"
  let ?m = "\<lparr>mem_pages = 2, mem_max = 3\<rparr>"
  let ?st = "\<lparr>INNER = \<lparr>next = 131080, upper_limit = 196608\<rparr>,
      host = \<lparr>mem_pages = 3, mem_max = 3\<rparr>\<rparr> :: (u32, wasm_memory) process"
  have run: "global_run request_pages_wasm32 ?cs (process_init ?m :: (u32, wasm_memory) process) =
     Inr ([Ptr 131072, Ptr null_mut], ?st)"
    by (simp add: alloc_eval global_alloc_def process_init_def null_mut_def)
  have wf: "wasm_wf ?m" by (simp add: wasm_wf_def)
  have size: "aligned_size (layout_new 131072 1 :: u32 layout) \<noteq> 0"
    by (simp add: layout_defs layout_new_def)
  from global_run_wasm32_null [OF _ wf _ run] obtain rs
    where ar: "alloc_run request_pages_wasm32 (requests ?cs) new ?m = Inr (rs, INNER ?st, host ?st)"
    and ans: "[Ptr 131072, Ptr null_mut] = answers ?cs rs"
    and null: "list_all2 (\<lambda>l r. aligned_size l \<noteq> 0 \<longrightarrow> (ptr_of r = null_mut \<longleftrightarrow> r = None)) (requests ?cs) rs"
    by auto
  from null obtain r1 r2 where rs: "rs = [r1, r2]" by (auto simp: list_all2_Cons1)
  with null size have "r2 = None \<longleftrightarrow> ptr_of r2 = null_mut" by auto
  moreover from ans rs have "ptr_of r1 = 131072" "ptr_of r2 = null_mut" by simp_all
  ultimately have "rs = [Some 131072, None]" using rs
    by (cases r1) (simp_all add: ptr_of_def null_mut_def)
  with ar run show ?thesis by simp
qed

text \<open>C34: on wasm32, when the linear memory is empty at the start, the first
  request of a padded size that is not zero, if the memory can grow by the
  pages it needs, is served at address zero: the adapter returns the null
  pointer although the memory has grown and \<open>next\<close> has moved.\<close>

theorem global_alloc_null_on_success:
  assumes len: "16 < LENGTH('a::len)" and wf: "wasm_wf m" and empty: "mem_pages m = 0"
    and size: "aligned_size l \<noteq> 0"
    and pages: "required_pages (aligned_size l) = Some (p :: 'a word)"
    and grant: "unat p \<le> mem_max m"
  shows "global_alloc request_pages_wasm32 l (process_init m) =
     Inr (null_mut, \<lparr>INNER = \<lparr>next = aligned_size l, upper_limit = p * PAGE_SIZE\<rparr>,
                    host = m\<lparr>mem_pages := unat p\<rparr>\<rparr>)"
proof -
  from size have pos: "0 < unat (aligned_size l)" by (simp add: unat_gt_0)
  have "unat (aligned_size l) + 65535 < 2 ^ LENGTH('a)"
    using pages by (simp add: required_pages_Some_iff [OF len])
  with required_pages_covers(2) [OF len pages] have room: "unat p * 65536 < 2 ^ LENGTH('a)"
    by simp
  have "request_pages_wasm32 (new :: 'a usize inner_alloc) m p = Inr (Some 0, m\<lparr>mem_pages := unat p\<rparr>)"
    using empty grant by (simp add: request_pages_wasm32_eq [OF len wf])
  moreover have "\<not> 2 ^ LENGTH('a) \<le> unat (aligned_size l)"
    using unat_less_len [of "aligned_size l"] by arith
  ultimately have "alloc request_pages_wasm32 l new m =
      Inr (Some 0, \<lparr>next = aligned_size l, upper_limit = p * PAGE_SIZE\<rparr>, m\<lparr>mem_pages := unat p\<rparr>)"
    using pos pages room by (simp add: alloc_nat_eq [OF len] new_def)
  then show ?thesis by (simp add: global_alloc_def process_init_def null_mut_def)
qed

theorem global_alloc_null_on_success_witness:
  "global_alloc request_pages_wasm32 (layout_new 8 8)
     (process_init \<lparr>mem_pages = 0, mem_max = 16\<rparr> :: (u32, wasm_memory) process) =
   Inr (null_mut, \<lparr>INNER = \<lparr>next = 8, upper_limit = 65536\<rparr>, host = \<lparr>mem_pages = 1, mem_max = 16\<rparr>\<rparr>)"
  using global_alloc_null_on_success [where l = "layout_new 8 8 :: u32 layout" and p = 1
      and m = "\<lparr>mem_pages = 0, mem_max = 16\<rparr>"]
  by (simp add: wasm_wf_def required_pages_def layout_defs layout_new_def checked_defs PAGE_SIZE_def)


section \<open>The cost of never freeing\<close>

text \<open>
  \<^verbatim>\<open>dealloc\<close> returns nothing to the allocator, so the bytes behind all the
  pointers a process has received, freed or not, lie side by side in the
  memory grown since the start. The first theorem bounds their sum; the
  second says that a process that asks for more than the memory may still
  grow by is refused at some point, whatever it has freed in between.
\<close>

lemma answers_null:
  "length rs = length (requests cs) \<Longrightarrow> None \<in> set rs \<Longrightarrow> Ptr null_mut \<in> set (answers cs rs)"
proof (induction cs arbitrary: rs)
  case Nil
  then show ?case by simp
next
  case (Cons c cs)
  show ?case
  proof (cases c)
    case (Dealloc p l)
    with Cons show ?thesis by simp
  next
    case (Alloc l)
    with Cons.prems obtain r rs' where "rs = r # rs'" "length rs' = length (requests cs)"
      by (cases rs) auto
    with Cons Alloc show ?thesis by (cases r) (auto simp: ptr_of_def)
  next
    case (Alloc_Zeroed l)
    with Cons.prems obtain r rs' where "rs = r # rs'" "length rs' = length (requests cs)"
      by (cases rs) auto
    with Cons Alloc_Zeroed show ?thesis by (cases r) (auto simp: ptr_of_def)
  qed
qed

text \<open>C27: on wasm32, from the initial process state, the sizes of the
  regions behind all the pointers returned that are not null, deallocated or
  not, add up to no more than the memory has grown by, and the memory stays
  within its maximum.\<close>

theorem global_run_wasm32_capacity:
  assumes "16 < LENGTH('a::len)" and "wasm_wf m"
    and "global_run request_pages_wasm32 cs (process_init m) =
           Inr (rets, st' :: ('a usize, wasm_memory) process)"
  shows "mem_pages m * 65536 + sum_list (map snd (served cs rets)) \<le> mem_pages (host st') * 65536 \<and>
     mem_pages (host st') \<le> mem_max m"
proof -
  from global_run_Inr [OF assms(3)] obtain rs
    where run: "alloc_run request_pages_wasm32 (requests cs) new m = Inr (rs, INNER st', host st')"
    and rets: "rets = answers cs rs" by (auto simp: process_init_def)
  note total = alloc_run_wasm32_total [OF assms(1,2) run]
  have "sum_list (map snd (served cs rets)) \<le> sum_list (map snd (regions (trace_of (requests cs) rs)))"
    unfolding rets served_answers [OF total(3)] by (rule sum_list_filter_le_nat)
  with total(1,2) show ?thesis by simp
qed

theorem global_run_wasm32_capacity_witness:
  "global_run request_pages_wasm32
     [Alloc (layout_new 65536 1), Dealloc 65536 (layout_new 65536 1), Alloc (layout_new 8 8)]
     (process_init \<lparr>mem_pages = 1, mem_max = 4\<rparr> :: (u32, wasm_memory) process) =
     Inr ([Ptr 65536, Unit, Ptr 131072],
          \<lparr>INNER = \<lparr>next = 131080, upper_limit = 196608\<rparr>, host = \<lparr>mem_pages = 3, mem_max = 4\<rparr>\<rparr>) \<and>
   (1 :: nat) * 65536 + sum_list (map snd [(65536 :: nat, 65536), (131072, 8)]) \<le> 3 * 65536"
proof -
  let ?cs = "[Alloc (layout_new 65536 1), Dealloc 65536 (layout_new 65536 1), Alloc (layout_new 8 8)]
    :: u32 call list"
  let ?m = "\<lparr>mem_pages = 1, mem_max = 4\<rparr>"
  have run: "global_run request_pages_wasm32 ?cs (process_init ?m :: (u32, wasm_memory) process) =
     Inr ([Ptr 65536, Unit, Ptr 131072],
          \<lparr>INNER = \<lparr>next = 131080, upper_limit = 196608\<rparr>, host = \<lparr>mem_pages = 3, mem_max = 4\<rparr>\<rparr>)"
    by (simp add: alloc_eval global_alloc_def global_dealloc_def process_init_def null_mut_def)
  have "wasm_wf ?m" by (simp add: wasm_wf_def)
  from global_run_wasm32_capacity [OF _ this run] run show ?thesis
    by (simp add: served_def null_mut_def layout_defs layout_new_def)
qed

text \<open>C28: on wasm32, a sequence of \<^verbatim>\<open>GlobalAlloc\<close> calls whose allocating
  requests add up, in padded size, to more than the memory may grow by
  receives the null pointer at least once, whatever it deallocates in
  between.\<close>

theorem global_run_wasm32_exhausts:
  assumes "16 < LENGTH('a::len)" and "wasm_wf m"
    and "global_run request_pages_wasm32 cs (process_init m) =
           Inr (rets, st' :: ('a usize, wasm_memory) process)"
    and "(mem_max m - mem_pages m) * 65536 < sum_list (map (\<lambda>l. unat (aligned_size l)) (requests cs))"
  shows "Ptr null_mut \<in> set rets"
proof -
  from global_run_Inr [OF assms(3)] obtain rs
    where run: "alloc_run request_pages_wasm32 (requests cs) new m = Inr (rs, INNER st', host st')"
    and rets: "rets = answers cs rs" by (auto simp: process_init_def)
  note total = alloc_run_wasm32_total [OF assms(1,2) run]
  have "None \<in> set rs"
  proof (rule ccontr)
    assume "None \<notin> set rs"
    from regions_trace_total [OF total(3) this] total(1,2)
    have "mem_pages m * 65536 + sum_list (map (\<lambda>l. unat (aligned_size l)) (requests cs))
        \<le> mem_max m * 65536" by (simp add: order_trans [OF _ mult_le_mono1])
    with assms(4) show False by (simp add: diff_mult_distrib)
  qed
  from answers_null [OF total(3) this] rets show ?thesis by simp
qed

theorem global_run_wasm32_exhausts_witness:
  "global_run request_pages_wasm32
     [Alloc (layout_new 65536 1), Dealloc 65536 (layout_new 65536 1), Alloc (layout_new 65536 1)]
     (process_init \<lparr>mem_pages = 1, mem_max = 2\<rparr> :: (u32, wasm_memory) process) =
     Inr ([Ptr 65536, Unit, Ptr null_mut],
          \<lparr>INNER = \<lparr>next = 131072, upper_limit = 131072\<rparr>, host = \<lparr>mem_pages = 2, mem_max = 2\<rparr>\<rparr>) \<and>
   Ptr null_mut \<in> set [Ptr 65536, Unit, Ptr (null_mut :: u32)]"
proof -
  let ?cs = "[Alloc (layout_new 65536 1), Dealloc 65536 (layout_new 65536 1),
    Alloc (layout_new 65536 1)] :: u32 call list"
  let ?m = "\<lparr>mem_pages = 1, mem_max = 2\<rparr>"
  have run: "global_run request_pages_wasm32 ?cs (process_init ?m :: (u32, wasm_memory) process) =
     Inr ([Ptr 65536, Unit, Ptr null_mut],
          \<lparr>INNER = \<lparr>next = 131072, upper_limit = 131072\<rparr>, host = \<lparr>mem_pages = 2, mem_max = 2\<rparr>\<rparr>)"
    by (simp add: alloc_eval global_alloc_def global_dealloc_def process_init_def null_mut_def)
  have "wasm_wf ?m" by (simp add: wasm_wf_def)
  from global_run_wasm32_exhausts [OF _ this run] run show ?thesis
    by (simp add: layout_defs layout_new_def)
qed

end
